theory Spec2Isabelle
  imports Complex_Main "HOL-Library.Multiset" "HOL-Library.Sublist"
begin

text \<open>
  A shallow embedding of the product backend: the repository's query pipeline
  (\<^verbatim>\<open>applyFilters\<close>, \<^verbatim>\<open>applySort\<close>, \<^verbatim>\<open>getProductsPaginated\<close>, \<^verbatim>\<open>getProductById\<close>), the
  insights service built on it, and the HTTP layer they fetch through, followed by the
  properties of the specification proved or refuted on them.
\<close>

section \<open>Data model (src/lib/types/product.ts)\<close>

text \<open>
  A JavaScript \<^verbatim>\<open>number\<close> is modelled by a rational: every finite IEEE double is a
  rational, and the comparisons \<^verbatim>\<open><\<close>, \<^verbatim>\<open>>\<close> of two finite doubles agree with the
  comparison of the rationals they denote. The sign of a floating-point difference
  \<^verbatim>\<open>a - b\<close> of two finite doubles is the sign of the exact difference, which is all a
  sort comparator is read for. \<^verbatim>\<open>NaN\<close> and the infinities are not values of the model
  (the request handlers drop \<^verbatim>\<open>NaN\<close> in \<^verbatim>\<open>parseOptionalNumber\<close>), and the rounding of
  sums and quotients is not modelled: means are exact.

  An optional field (\<^verbatim>\<open>field?: T\<close>) is an \<open>option\<close>; \<open>None\<close> is \<^verbatim>\<open>undefined\<close>.
  Field names that several interfaces share carry a suffix naming the interface.
\<close>

type_synonym number = rat

record ProductDto =
  id_dto :: number
  title_dto :: string
  description_dto :: string
  price_dto :: number
  category_dto :: string
  thumbnail_dto :: string
  rating_dto :: number
  stock_dto :: number
  brand_dto :: "string option"
  images_dto :: "string list option"
  discountPercentage_dto :: "number option"

record ProductsResponseDto =
  products_dto :: "ProductDto list"
  total_dto :: number
  skip_dto :: number
  limit_dto :: number

record Product =
  id_p :: number
  title :: string
  description :: string
  price :: number
  category :: string
  thumbnail :: string
  rating :: number
  stock :: number
  brand :: "string option"
  images :: "string list option"
  discountPercentage :: "number option"

record ProductListItem =
  id_item :: number
  title_item :: string
  price_item :: number
  category_item :: string
  thumbnail_item :: string
  rating_item :: number
  stock_item :: number

text \<open>
  \<^verbatim>\<open>ProductFilters\<close>. The interface in \<^verbatim>\<open>types/product.ts\<close> lists four fields;
  \<^verbatim>\<open>applyFilters\<close> and both request handlers also read \<^verbatim>\<open>maxStock\<close>.
\<close>

record ProductFilters =
  search :: "string option"
  category_f :: "string option"
  minPrice :: "number option"
  maxPrice :: "number option"
  maxStock :: "number option"

text \<open>
  \<^verbatim>\<open>ProductSort\<close>: the six literals of the union type. The handler casts the raw query
  string to this type, so any other non-empty string can arrive as well; it is
  \<open>other_sort\<close> and reaches the \<^verbatim>\<open>default\<close> branch of the comparator.
\<close>

datatype ProductSort =
  price_asc | price_desc | rating_asc | rating_desc | title_asc | title_desc
  | other_sort

text \<open>
  \<^verbatim>\<open>PaginatedResult<ProductListItem>\<close>. Page numbers, page sizes and counts are integers:
  the handler produces them with \<^verbatim>\<open>parsePositiveInt\<close>, and on integers below \<open>2^53\<close> the
  quotient \<^verbatim>\<open>total / safePageSize\<close> followed by \<^verbatim>\<open>Math.ceil\<close> is exact.
\<close>

record PaginatedResult =
  items :: "ProductListItem list"
  total_pr :: int
  page :: int
  pageSize :: int
  totalPages :: int

record GetProductsOptions =
  filters_opt :: "ProductFilters option"
  sort_opt :: "ProductSort option"
  page_opt :: "int option"
  pageSize_opt :: "int option"

record CategoryCount =
  name_cc :: string
  count_cc :: nat

record CategoryStock =
  category_cs :: string
  totalStock_cs :: number

record ProductsInsights =
  averagePriceGlobal :: number
  averageRatingGlobal :: number
  averageStockGlobal :: number
  totalProducts :: nat
  totalStock :: number
  mostCommonCategory :: "CategoryCount option"
  lowStockCount :: nat
  topRatedProducts :: "ProductListItem list"
  stockByCategory :: "CategoryStock list"

section \<open>Configuration (src/lib/config.ts)\<close>

definition DEFAULT_PAGE_SIZE :: int where
  "DEFAULT_PAGE_SIZE = 20"

definition LOW_STOCK_THRESHOLD :: number where
  "LOW_STOCK_THRESHOLD = 10"

section \<open>JavaScript built-ins used by the repository\<close>

text \<open>
  Strings are \<open>char list\<close>. \<^verbatim>\<open>String.prototype.toLowerCase\<close> is modelled on ASCII text:
  the letters \<^verbatim>\<open>A\<close>..\<^verbatim>\<open>Z\<close> map to \<^verbatim>\<open>a\<close>..\<^verbatim>\<open>z\<close> and every other character is kept.
\<close>

definition lowerChar :: "char \<Rightarrow> char" where
  "lowerChar c =
     (let n = (of_char c :: nat)
      in if 65 \<le> n \<and> n \<le> 90 then char_of (n + 32) else c)"

definition toLowerCase :: "string \<Rightarrow> string" where
  "toLowerCase s = map lowerChar s"

text \<open>\<^verbatim>\<open>String.prototype.startsWith\<close> and \<^verbatim>\<open>includes\<close> (\<open>includes_str\<close>: the
  source's name is reserved in Isabelle): a scan over the start positions.\<close>

fun startsWith :: "string \<Rightarrow> string \<Rightarrow> bool" where
  "startsWith s [] = True"
| "startsWith [] (c # cs) = False"
| "startsWith (h # hs) (c # cs) = (h = c \<and> startsWith hs cs)"

fun includes_str :: "string \<Rightarrow> string \<Rightarrow> bool" where
  "includes_str [] needle = (needle = [])"
| "includes_str (h # hs) needle = (startsWith (h # hs) needle \<or> includes_str hs needle)"

text \<open>Truthiness of an optional string: \<^verbatim>\<open>undefined\<close> and \<^verbatim>\<open>""\<close> are falsy.\<close>

definition truthy :: "string option \<Rightarrow> bool" where
  "truthy s = (case s of None \<Rightarrow> False | Some v \<Rightarrow> v \<noteq> [])"

text \<open>
  \<^verbatim>\<open>Array.prototype.slice(start, end)\<close> on integer arguments: a negative index counts
  from the end, and both indices are clamped to the array.
\<close>

definition slice :: "'a list \<Rightarrow> int \<Rightarrow> int \<Rightarrow> 'a list" where
  "slice xs start end_ix =
     (let len = int (length xs);
          k = (if start < 0 then max (len + start) 0 else min start len);
          final = (if end_ix < 0 then max (len + end_ix) 0 else min end_ix len)
      in take (nat (final - k)) (drop (nat k) xs))"

text \<open>
  \<^verbatim>\<open>Array.prototype.sort(compareFn)\<close> is stable (ECMAScript 2019). For a consistent
  comparator the stable sorted arrangement of an array is unique, so any stable
  algorithm computes it; the model is the stable insertion sort. \<open>a\<close> goes before \<open>b\<close>
  when \<open>compareFn a b \<le> 0\<close>.
\<close>

fun sortInsert :: "('a \<Rightarrow> 'a \<Rightarrow> number) \<Rightarrow> 'a \<Rightarrow> 'a list \<Rightarrow> 'a list" where
  "sortInsert compareFn x [] = [x]"
| "sortInsert compareFn x (y # ys) =
     (if compareFn x y \<le> 0 then x # y # ys else y # sortInsert compareFn x ys)"

fun arraySort :: "('a \<Rightarrow> 'a \<Rightarrow> number) \<Rightarrow> 'a list \<Rightarrow> 'a list" where
  "arraySort compareFn [] = []"
| "arraySort compareFn (x # xs) = sortInsert compareFn x (arraySort compareFn xs)"

text \<open>
  A \<^verbatim>\<open>Map<string, V>\<close> keeps its keys in insertion order: \<^verbatim>\<open>set\<close> on a present key
  replaces the value in place, on a new key it appends; \<^verbatim>\<open>entries()\<close> is the list.
\<close>

fun mapGet :: "(string \<times> 'v) list \<Rightarrow> string \<Rightarrow> 'v option" where
  "mapGet [] k = None"
| "mapGet ((k', v) # m) k = (if k' = k then Some v else mapGet m k)"

fun mapSet :: "(string \<times> 'v) list \<Rightarrow> string \<Rightarrow> 'v \<Rightarrow> (string \<times> 'v) list" where
  "mapSet [] k v = [(k, v)]"
| "mapSet ((k', v') # m) k v = (if k' = k then (k, v) # m else (k', v') # mapSet m k v)"

section \<open>Product repository (src/unnamed/part_000)\<close>

definition mapDtoToDomain :: "ProductDto \<Rightarrow> Product" where
  "mapDtoToDomain dto =
     \<lparr> id_p = id_dto dto,
       title = title_dto dto,
       description = description_dto dto,
       price = price_dto dto,
       category = category_dto dto,
       thumbnail = thumbnail_dto dto,
       rating = rating_dto dto,
       stock = stock_dto dto,
       brand = brand_dto dto,
       images = images_dto dto,
       discountPercentage = discountPercentage_dto dto \<rparr>"

definition toProductListItem :: "Product \<Rightarrow> ProductListItem" where
  "toProductListItem product =
     \<lparr> id_item = id_p product,
       title_item = title product,
       price_item = price product,
       category_item = category product,
       thumbnail_item = thumbnail product,
       rating_item = rating product,
       stock_item = stock product \<rparr>"

text \<open>
  The callback of \<^verbatim>\<open>products.filter\<close> in \<^verbatim>\<open>applyFilters\<close>, one \<open>if\<close> per \<^verbatim>\<open>if\<close> of the
  source, in the source's order. \<^verbatim>\<open>typeof x === "number"\<close> holds exactly when the
  optional number is present.
\<close>

definition keepProduct :: "ProductFilters \<Rightarrow> Product \<Rightarrow> bool" where
  "keepProduct filters product =
     (if truthy (category_f filters) \<and> Some (category product) \<noteq> category_f filters
      then False
      else if (case minPrice filters of None \<Rightarrow> False | Some m \<Rightarrow> price product < m)
      then False
      else if (case maxPrice filters of None \<Rightarrow> False | Some m \<Rightarrow> price product > m)
      then False
      else if (case maxStock filters of None \<Rightarrow> False | Some m \<Rightarrow> stock product > m)
      then False
      else if truthy (search filters)
      then (let haystack =
                  toLowerCase (title product @ '' '' @ description product @ '' ''
                               @ category product)
            in if \<not> includes_str haystack (toLowerCase (the (search filters)))
               then False else True)
      else True)"

definition applyFilters :: "Product list \<Rightarrow> ProductFilters \<Rightarrow> Product list" where
  "applyFilters products filters = filter (keepProduct filters) products"

text \<open>
  The comparator of \<^verbatim>\<open>applySort\<close>, one case per \<^verbatim>\<open>case\<close> of the \<^verbatim>\<open>switch\<close>.
  \<^verbatim>\<open>String.prototype.localeCompare\<close> is the host's collation (ICU); it is a parameter.
\<close>

definition compareProducts ::
  "(string \<Rightarrow> string \<Rightarrow> number) \<Rightarrow> ProductSort \<Rightarrow> Product \<Rightarrow> Product \<Rightarrow> number" where
  "compareProducts localeCompare sortOrder a b =
     (case sortOrder of
        price_asc \<Rightarrow> price a - price b
      | price_desc \<Rightarrow> price b - price a
      | rating_asc \<Rightarrow> rating a - rating b
      | rating_desc \<Rightarrow> rating b - rating a
      | title_asc \<Rightarrow> localeCompare (title a) (title b)
      | title_desc \<Rightarrow> localeCompare (title b) (title a)
      | other_sort \<Rightarrow> 0)"

definition applySort ::
  "(string \<Rightarrow> string \<Rightarrow> number) \<Rightarrow> Product list \<Rightarrow> ProductSort option \<Rightarrow> Product list" where
  "applySort localeCompare products sortOrder =
     (let sorted = products
      in case sortOrder of
           None \<Rightarrow> sorted
         | Some s \<Rightarrow> arraySort (compareProducts localeCompare s) sorted)"

section \<open>HTTP layer (src/lib/utils/http.ts, src/lib/services/dummyjsonClient.ts)\<close>

text \<open>
  What one call of \<^verbatim>\<open>fetch\<close> followed by reading the body can do, as \<^verbatim>\<open>fetchJson\<close>
  observes it:
  \<^item> \<open>Responded_ok body\<close>: \<^verbatim>\<open>response.ok\<close> and \<^verbatim>\<open>response.json()\<close> resolved to \<open>body\<close>;
  \<^item> \<open>Responded_unparsable msg\<close>: \<^verbatim>\<open>response.ok\<close> and \<^verbatim>\<open>response.json()\<close> rejected with
    an \<^verbatim>\<open>Error\<close> of message \<open>msg\<close>;
  \<^item> \<open>Responded_failure st txt\<close>: a response with \<^verbatim>\<open>!response.ok\<close> and status \<open>st\<close>;
    \<open>txt\<close> is its text, \<open>None\<close> when \<^verbatim>\<open>response.text()\<close> rejected;
  \<^item> \<open>Timed_out\<close>: the timer aborted the request (\<^verbatim>\<open>AbortError\<close>);
  \<^item> \<open>Network_error msg\<close>: \<^verbatim>\<open>fetch\<close> rejected with an \<^verbatim>\<open>Error\<close> of message \<open>msg\<close>;
  \<^item> \<open>Unknown_rejection\<close>: a rejection with a value that is not an \<^verbatim>\<open>Error\<close>.
  A rejected promise is the left summand of the result.
\<close>

datatype 'a fetch_outcome =
    Responded_ok 'a
  | Responded_unparsable string
  | Responded_failure nat "string option"
  | Timed_out
  | Network_error string
  | Unknown_rejection

record HttpError =
  status :: nat
  message :: string

fun showNat :: "nat \<Rightarrow> string" where
  "showNat n =
     (if n < 10 then [char_of (48 + n)]
      else showNat (n div 10) @ [char_of (48 + n mod 10)])"

declare showNat.simps [simp del]

definition fetchJson :: "'a fetch_outcome \<Rightarrow> HttpError + 'a" where
  "fetchJson outcome =
     (case outcome of
        Responded_ok body \<Rightarrow> Inr body
      | Responded_failure st txt \<Rightarrow>
          (let text = (case txt of None \<Rightarrow> [] | Some t \<Rightarrow> t)
           in Inl \<lparr> status = st,
                    message = (if text \<noteq> [] then text
                               else ''Request failed with status '' @ showNat st) \<rparr>)
      | Timed_out \<Rightarrow>
          Inl \<lparr> status = 408, message = ''Request to external API timed out'' \<rparr>
      | Responded_unparsable msg \<Rightarrow>
          Inl \<lparr> status = 502,
                message = ''Network error while calling external API: '' @ msg \<rparr>
      | Network_error msg \<Rightarrow>
          Inl \<lparr> status = 502,
                message = ''Network error while calling external API: '' @ msg \<rparr>
      | Unknown_rejection \<Rightarrow>
          Inl \<lparr> status = 502,
                message = ''Unknown network error while calling external API'' \<rparr>)"

text \<open>
  The upstream catalog as the two URLs the client requests answer:
  \<^verbatim>\<open>/products?limit=100&skip=0\<close> (the only call of \<^verbatim>\<open>fetchProductsFromDummyJson\<close> passes
  no parameters) and \<^verbatim>\<open>/products/{id}\<close>.
\<close>

record Upstream =
  products_response :: "ProductsResponseDto fetch_outcome"
  product_response :: "number \<Rightarrow> ProductDto fetch_outcome"

definition fetchProductsFromDummyJson :: "Upstream \<Rightarrow> HttpError + ProductsResponseDto" where
  "fetchProductsFromDummyJson up = fetchJson (products_response up)"

definition fetchProductByIdFromDummyJson :: "Upstream \<Rightarrow> number \<Rightarrow> HttpError + ProductDto" where
  "fetchProductByIdFromDummyJson up ident = fetchJson (product_response up ident)"

section \<open>Repository operations (src/unnamed/part_000)\<close>

definition getAllProducts :: "Upstream \<Rightarrow> HttpError + Product list" where
  "getAllProducts up =
     (case fetchProductsFromDummyJson up of
        Inl e \<Rightarrow> Inl e
      | Inr response \<Rightarrow> Inr (map mapDtoToDomain (products_dto response)))"

text \<open>
  \<^verbatim>\<open>getProductById\<close>: \<^verbatim>\<open>.catch(() => null)\<close> turns every rejection into \<^verbatim>\<open>null\<close>, here
  \<open>None\<close>. The promise the function returns could reject in principle, so its result
  is a sum as well.
\<close>

definition getProductById :: "Upstream \<Rightarrow> number \<Rightarrow> HttpError + Product option" where
  "getProductById up ident =
     (let dto = (case fetchProductByIdFromDummyJson up ident of
                   Inl e \<Rightarrow> None
                 | Inr d \<Rightarrow> Some d)
      in case dto of
           None \<Rightarrow> Inr None
         | Some d \<Rightarrow> Inr (Some (mapDtoToDomain d)))"

definition emptyFilters :: ProductFilters where
  "emptyFilters =
     \<lparr> search = None, category_f = None, minPrice = None, maxPrice = None,
       maxStock = None \<rparr>"

definition getProductsPaginated ::
  "(string \<Rightarrow> string \<Rightarrow> number) \<Rightarrow> Upstream \<Rightarrow> GetProductsOptions
     \<Rightarrow> HttpError + PaginatedResult" where
  "getProductsPaginated localeCompare up options =
     (let filters = (case filters_opt options of None \<Rightarrow> emptyFilters | Some f \<Rightarrow> f);
          sort = sort_opt options;
          page0 = (case page_opt options of None \<Rightarrow> 1 | Some p \<Rightarrow> p);
          pageSize0 = (case pageSize_opt options of
                         None \<Rightarrow> DEFAULT_PAGE_SIZE | Some n \<Rightarrow> n)
      in case getAllProducts up of
           Inl e \<Rightarrow> Inl e
         | Inr allProducts \<Rightarrow>
             (let filtered = applyFilters allProducts filters;
                  sorted = applySort localeCompare filtered sort;
                  safePageSize = (if pageSize0 > 0 then pageSize0 else DEFAULT_PAGE_SIZE);
                  total = int (length sorted);
                  totalPages0 =
                    max 1 (\<lceil>(of_int total :: rat) / of_int safePageSize\<rceil>);
                  clampedPage = min (max page0 1) totalPages0;
                  start = (clampedPage - 1) * safePageSize;
                  end_ix = start + safePageSize;
                  pageItems = map toProductListItem (slice sorted start end_ix)
              in Inr \<lparr> items = pageItems,
                       total_pr = total,
                       page = clampedPage,
                       pageSize = safePageSize,
                       totalPages = totalPages0 \<rparr>))"

definition getProductsForInsights ::
  "Upstream \<Rightarrow> ProductFilters option \<Rightarrow> HttpError + Product list" where
  "getProductsForInsights up filters0 =
     (let filters = (case filters0 of None \<Rightarrow> emptyFilters | Some f \<Rightarrow> f)
      in case getAllProducts up of
           Inl e \<Rightarrow> Inl e
         | Inr allProducts \<Rightarrow> Inr (applyFilters allProducts filters))"

section \<open>Insights service (src/lib/services/productInsightsService.ts)\<close>

definition computeAveragePrice :: "Product list \<Rightarrow> number" where
  "computeAveragePrice products =
     (if length products = 0 then 0
      else (let sum = foldl (\<lambda>acc p. acc + price p) 0 products
            in sum / of_nat (length products)))"

definition computeTotalStock :: "Product list \<Rightarrow> number" where
  "computeTotalStock products = foldl (\<lambda>acc p. acc + stock p) 0 products"

definition computeAverageRating :: "Product list \<Rightarrow> number" where
  "computeAverageRating products =
     (if length products = 0 then 0
      else (let sum = foldl (\<lambda>acc p. acc + rating p) 0 products
            in sum / of_nat (length products)))"

definition computeAverageStock :: "Product list \<Rightarrow> number" where
  "computeAverageStock products =
     (if length products = 0 then 0
      else (let sum = foldl (\<lambda>acc p. acc + stock p) 0 products
            in sum / of_nat (length products)))"

text \<open>
  \<^verbatim>\<open>computeMostCommonCategory\<close>: the first loop fills the map of counts, the second one
  scans its entries in insertion order with the pair \<open>(maxCategory, maxCount)\<close>. The
  final test \<^verbatim>\<open>!maxCategory\<close> holds for \<^verbatim>\<open>null\<close> and for the empty string.
\<close>

definition countCategories :: "Product list \<Rightarrow> (string \<times> nat) list" where
  "countCategories products =
     foldl (\<lambda>counts product.
              mapSet counts (category product)
                ((case mapGet counts (category product) of None \<Rightarrow> 0 | Some c \<Rightarrow> c) + 1))
           [] products"

definition scanMax :: "(string \<times> nat) list \<Rightarrow> string option \<times> nat" where
  "scanMax entries =
     foldl (\<lambda>(maxCategory, maxCount) (category, count).
              if count > maxCount then (Some category, count)
              else (maxCategory, maxCount))
           (None, 0) entries"

definition computeMostCommonCategory :: "Product list \<Rightarrow> CategoryCount option" where
  "computeMostCommonCategory products =
     (if length products = 0 then None
      else (let counts = countCategories products;
                (maxCategory, maxCount) = scanMax counts
            in if \<not> truthy maxCategory then None
               else Some \<lparr> name_cc = the maxCategory, count_cc = maxCount \<rparr>))"

definition computeLowStockCount :: "Product list \<Rightarrow> number option \<Rightarrow> nat" where
  "computeLowStockCount products threshold0 =
     (let threshold = (case threshold0 of None \<Rightarrow> LOW_STOCK_THRESHOLD | Some t \<Rightarrow> t)
      in length (filter (\<lambda>p. stock p < threshold) products))"

definition computeTopRatedProducts :: "Product list \<Rightarrow> int option \<Rightarrow> ProductListItem list" where
  "computeTopRatedProducts products limit0 =
     (let limit = (case limit0 of None \<Rightarrow> 5 | Some n \<Rightarrow> n);
          sorted = arraySort (\<lambda>a b. rating b - rating a) products
      in map toProductListItem (slice sorted 0 limit))"

definition computeStockByCategory :: "Product list \<Rightarrow> CategoryStock list" where
  "computeStockByCategory products =
     (let totals =
            foldl (\<lambda>totals product.
                     mapSet totals (category product)
                       ((case mapGet totals (category product) of None \<Rightarrow> 0 | Some t \<Rightarrow> t)
                        + stock product))
                  [] products
      in map (\<lambda>(category, totalStock).
                \<lparr> category_cs = category, totalStock_cs = totalStock \<rparr>) totals)"

text \<open>
  The body of \<^verbatim>\<open>getProductsInsights\<close> after the \<^verbatim>\<open>await\<close>: the snapshot of a record
  set (the specification's \<^verbatim>\<open>computeInsights\<close>).
\<close>

definition computeInsights :: "Product list \<Rightarrow> ProductsInsights" where
  "computeInsights products =
     \<lparr> averagePriceGlobal = computeAveragePrice products,
       averageRatingGlobal = computeAverageRating products,
       averageStockGlobal = computeAverageStock products,
       totalProducts = length products,
       totalStock = computeTotalStock products,
       mostCommonCategory = computeMostCommonCategory products,
       lowStockCount = computeLowStockCount products None,
       topRatedProducts = computeTopRatedProducts products None,
       stockByCategory = computeStockByCategory products \<rparr>"

definition getProductsInsights ::
  "Upstream \<Rightarrow> ProductFilters option \<Rightarrow> HttpError + ProductsInsights" where
  "getProductsInsights up filters0 =
     (case getProductsForInsights up filters0 of
        Inl e \<Rightarrow> Inl e
      | Inr products \<Rightarrow> Inr (computeInsights products))"

section \<open>Vocabulary of the statements\<close>

text \<open>
  What the destructuring defaults of \<^verbatim>\<open>getProductsPaginated\<close> and
  \<^verbatim>\<open>getProductsForInsights\<close> resolve an options object to, and the snapshot the
  specification gives for the empty record set.
\<close>

definition resolvedPageSize :: "GetProductsOptions \<Rightarrow> int" where
  "resolvedPageSize options =
     (case pageSize_opt options of None \<Rightarrow> 20 | Some n \<Rightarrow> if 0 < n then n else 20)"

definition requestedPage :: "GetProductsOptions \<Rightarrow> int" where
  "requestedPage options = (case page_opt options of None \<Rightarrow> 1 | Some p \<Rightarrow> p)"

definition requestedFilters :: "GetProductsOptions \<Rightarrow> ProductFilters" where
  "requestedFilters options =
     (case filters_opt options of None \<Rightarrow> emptyFilters | Some f \<Rightarrow> f)"

definition defaultedFilters :: "ProductFilters option \<Rightarrow> ProductFilters" where
  "defaultedFilters filters0 = (case filters0 of None \<Rightarrow> emptyFilters | Some f \<Rightarrow> f)"

definition emptyInsights :: ProductsInsights where
  "emptyInsights =
     \<lparr> averagePriceGlobal = 0, averageRatingGlobal = 0, averageStockGlobal = 0,
       totalProducts = 0, totalStock = 0, mostCommonCategory = None, lowStockCount = 0,
       topRatedProducts = [], stockByCategory = [] \<rparr>"

text \<open>
  The filter of the specification, in its words: a record is kept iff all specified
  criteria hold, a criterion that is not specified holds of every record.
\<close>

definition haystackOf :: "Product \<Rightarrow> string" where
  "haystackOf record = title record @ '' '' @ description record @ '' '' @ category record"

definition specOtherCriteria :: "ProductFilters \<Rightarrow> Product \<Rightarrow> bool" where
  "specOtherCriteria criteria record \<longleftrightarrow>
     (case minPrice criteria of None \<Rightarrow> True | Some m \<Rightarrow> price record \<ge> m)
     \<and> (case maxPrice criteria of None \<Rightarrow> True | Some m \<Rightarrow> price record \<le> m)
     \<and> (case maxStock criteria of None \<Rightarrow> True | Some m \<Rightarrow> stock record \<le> m)
     \<and> (case search criteria of
          None \<Rightarrow> True
        | Some s \<Rightarrow> sublist (toLowerCase s) (toLowerCase (haystackOf record)))"

definition specKeeps :: "ProductFilters \<Rightarrow> Product \<Rightarrow> bool" where
  "specKeeps criteria record \<longleftrightarrow>
     (case category_f criteria of None \<Rightarrow> True | Some c \<Rightarrow> category record = c)
     \<and> specOtherCriteria criteria record"

text \<open>The same with an empty-string category counted as not specified.\<close>

definition specKeepsNonEmpty :: "ProductFilters \<Rightarrow> Product \<Rightarrow> bool" where
  "specKeepsNonEmpty criteria record \<longleftrightarrow>
     (case category_f criteria of
        None \<Rightarrow> True
      | Some c \<Rightarrow> c = [] \<or> category record = c)
     \<and> specOtherCriteria criteria record"

text \<open>
  A comparator is consistent when "goes before or ties" is total and transitive; this is
  what \<^verbatim>\<open>Array.prototype.sort\<close> needs of its argument, and what a collation provides.
\<close>

definition consistentComparator :: "('a \<Rightarrow> 'a \<Rightarrow> number) \<Rightarrow> bool" where
  "consistentComparator compareFn \<longleftrightarrow>
     (\<forall>a b. compareFn a b \<le> 0 \<or> compareFn b a \<le> 0)
     \<and> (\<forall>a b c. compareFn a b \<le> 0 \<and> compareFn b c \<le> 0 \<longrightarrow> compareFn a c \<le> 0)"

text \<open>
  The six orders in the specification's words: when a record may stand before another,
  and when two records have equal sort keys. Titles are compared by the collation, so two
  titles are equal keys when neither goes strictly before the other.
\<close>

definition mayPrecede ::
  "(string \<Rightarrow> string \<Rightarrow> number) \<Rightarrow> ProductSort \<Rightarrow> Product \<Rightarrow> Product \<Rightarrow> bool" where
  "mayPrecede localeCompare sortOrder a b =
     (case sortOrder of
        price_asc \<Rightarrow> price a \<le> price b
      | price_desc \<Rightarrow> price a \<ge> price b
      | rating_asc \<Rightarrow> rating a \<le> rating b
      | rating_desc \<Rightarrow> rating a \<ge> rating b
      | title_asc \<Rightarrow> localeCompare (title a) (title b) \<le> 0
      | title_desc \<Rightarrow> localeCompare (title b) (title a) \<le> 0
      | other_sort \<Rightarrow> True)"

definition equalKeys ::
  "(string \<Rightarrow> string \<Rightarrow> number) \<Rightarrow> ProductSort \<Rightarrow> Product \<Rightarrow> Product \<Rightarrow> bool" where
  "equalKeys localeCompare sortOrder a b =
     (case sortOrder of
        price_asc \<Rightarrow> price a = price b
      | price_desc \<Rightarrow> price a = price b
      | rating_asc \<Rightarrow> rating a = rating b
      | rating_desc \<Rightarrow> rating a = rating b
      | title_asc \<Rightarrow> localeCompare (title a) (title b) \<le> 0
                     \<and> localeCompare (title b) (title a) \<le> 0
      | title_desc \<Rightarrow> localeCompare (title a) (title b) \<le> 0
                      \<and> localeCompare (title b) (title a) \<le> 0
      | other_sort \<Rightarrow> True)"

text \<open>The distinct elements of a list in the order of their first occurrence.\<close>

definition firstSeen :: "'a list \<Rightarrow> 'a list" where
  "firstSeen xs = rev (remdups (rev xs))"

section \<open>Sample inputs\<close>

text \<open>A record with the given title, price, rating, stock and category.\<close>

definition sampleProduct :: "string \<Rightarrow> number \<Rightarrow> number \<Rightarrow> number \<Rightarrow> string \<Rightarrow> Product" where
  "sampleProduct t pr rt st c =
     \<lparr> id_p = 1, title = t, description = ''d'', price = pr, category = c,
       thumbnail = ''u'', rating = rt, stock = st, brand = None, images = None,
       discountPercentage = None \<rparr>"

text \<open>
  An upstream whose catalog request answers with the given raw records, and whose
  single-record request answers 404.
\<close>

definition sampleUpstream :: "ProductDto list \<Rightarrow> Upstream" where
  "sampleUpstream dtos =
     \<lparr> products_response =
         Responded_ok \<lparr> products_dto = dtos, total_dto = of_nat (length dtos),
                        skip_dto = 0, limit_dto = 100 \<rparr>,
       product_response = (\<lambda>ident. Responded_failure 404 None) \<rparr>"

text \<open>The raw record that \<open>mapDtoToDomain\<close> maps to \<open>sampleProduct\<close>.\<close>

definition sampleDto :: "string \<Rightarrow> number \<Rightarrow> number \<Rightarrow> number \<Rightarrow> string \<Rightarrow> ProductDto" where
  "sampleDto t pr rt st c =
     \<lparr> id_dto = 1, title_dto = t, description_dto = ''d'', price_dto = pr, category_dto = c,
       thumbnail_dto = ''u'', rating_dto = rt, stock_dto = st, brand_dto = None,
       images_dto = None, discountPercentage_dto = None \<rparr>"

text \<open>An upstream whose single-record request has the given outcome for every identifier.\<close>

definition upstreamAnswering :: "ProductDto fetch_outcome \<Rightarrow> Upstream" where
  "upstreamAnswering outcome =
     \<lparr> products_response = Network_error ''unused'',
       product_response = (\<lambda>ident. outcome) \<rparr>"

text \<open>
  A consistent comparator of strings: lexicographic order of the character codes, the
  result of \<^verbatim>\<open>localeCompare\<close> under a binary collation.
\<close>

fun codeUnitCompare :: "string \<Rightarrow> string \<Rightarrow> number" where
  "codeUnitCompare [] [] = 0"
| "codeUnitCompare [] (y # ys) = - 1"
| "codeUnitCompare (x # xs) [] = 1"
| "codeUnitCompare (x # xs) (y # ys) =
     (if (of_char x :: nat) < of_char y then - 1
      else if (of_char y :: nat) < of_char x then 1
      else codeUnitCompare xs ys)"

section \<open>Low-stock count\<close>

text \<open>
  C8. The low-stock count of a record list, as the insights snapshot reports it, is the
  number of positions whose record has stock strictly below the threshold 10; a record
  whose stock is exactly 10 adds nothing to the count.
\<close>

theorem lowStockCount_strictly_below_threshold:
  "lowStockCount (computeInsights products)
     = card {i. i < length products \<and> stock (products ! i) < 10}
   \<and> computeLowStockCount products None = length (filter (\<lambda>p. stock p < 10) products)
   \<and> (stock p = 10 \<longrightarrow>
        computeLowStockCount (p # products) None = computeLowStockCount products None)"
  by (simp add: computeInsights_def computeLowStockCount_def LOW_STOCK_THRESHOLD_def
      length_filter_conv_card)

theorem lowStockCount_strictly_below_threshold_witness:
  "stock (sampleProduct ''x'' 1 1 10 ''c'') = 10
   \<and> computeLowStockCount [sampleProduct ''x'' 1 1 10 ''c'', sampleProduct ''y'' 1 1 9 ''c''] None = 1"
  using lowStockCount_strictly_below_threshold
    [of "[sampleProduct ''y'' 1 1 9 ''c'']" "sampleProduct ''x'' 1 1 10 ''c''"]
  by (simp add: sampleProduct_def)

section \<open>Empty-string criteria\<close>

lemma truthy_simps [simp]:
  "truthy None = False" "truthy (Some []) = False" "truthy (Some (c # cs)) = True"
  by (simp_all add: truthy_def)

lemma keepProduct_empty_category:
  "keepProduct (filters\<lparr>category_f := Some []\<rparr>) = keepProduct (filters\<lparr>category_f := None\<rparr>)"
  by (rule ext) (simp add: keepProduct_def)

lemma keepProduct_empty_search:
  "keepProduct (filters\<lparr>search := Some []\<rparr>) = keepProduct (filters\<lparr>search := None\<rparr>)"
  by (rule ext) (simp add: keepProduct_def)

lemma keepProduct_no_criteria:
  "keepProduct (emptyFilters\<lparr>category_f := Some [], search := Some []\<rparr>) = (\<lambda>p. True)"
  by (rule ext) (simp add: keepProduct_def emptyFilters_def)

text \<open>
  C10. An empty-string category or search criterion constrains nothing: the result is
  the one obtained with that criterion absent, whatever the other criteria are; with
  no other criterion every record is kept, also one whose category is not empty.
\<close>

theorem applyFilters_empty_string_is_absent:
  "applyFilters products (filters\<lparr>category_f := Some []\<rparr>)
     = applyFilters products (filters\<lparr>category_f := None\<rparr>)
   \<and> applyFilters products (filters\<lparr>search := Some []\<rparr>)
     = applyFilters products (filters\<lparr>search := None\<rparr>)
   \<and> applyFilters products (emptyFilters\<lparr>category_f := Some [], search := Some []\<rparr>)
     = products"
proof (intro conjI)
  show "applyFilters products (filters\<lparr>category_f := Some []\<rparr>)
          = applyFilters products (filters\<lparr>category_f := None\<rparr>)"
    by (simp only: applyFilters_def keepProduct_empty_category)
  show "applyFilters products (filters\<lparr>search := Some []\<rparr>)
          = applyFilters products (filters\<lparr>search := None\<rparr>)"
    by (simp only: applyFilters_def keepProduct_empty_search)
  show "applyFilters products (emptyFilters\<lparr>category_f := Some [], search := Some []\<rparr>)
          = products"
    unfolding applyFilters_def keepProduct_no_criteria by simp
qed

section \<open>Sorting keeps the records\<close>

lemma mset_sortInsert: "mset (sortInsert compareFn x ys) = add_mset x (mset ys)"
  by (induction ys) simp_all

lemma mset_arraySort: "mset (arraySort compareFn xs) = mset xs"
  by (induction xs) (simp_all add: mset_sortInsert)

lemma length_arraySort: "length (arraySort compareFn xs) = length xs"
  using mset_arraySort [of compareFn xs] by (metis size_mset)

lemma mset_applySort: "mset (applySort localeCompare products sortOrder) = mset products"
  by (cases sortOrder) (simp_all add: applySort_def mset_arraySort)

lemma length_applySort: "length (applySort localeCompare products sortOrder) = length products"
  using mset_applySort [of localeCompare products sortOrder] by (metis size_mset)

section \<open>The page window\<close>

lemma slice_window:
  assumes "0 \<le> start" and "0 \<le> n"
  shows "slice xs start (start + n) = take (nat n) (drop (nat start) xs)"
proof (cases "start \<le> int (length xs)")
  case True
  have "take (nat (min (start + n) (int (length xs)) - start)) (drop (nat start) xs)
          = take (nat n) (drop (nat start) xs)"
  proof (cases "start + n \<le> int (length xs)")
    case True
    then show ?thesis by (simp add: min_def)
  next
    case False
    with \<open>start \<le> int (length xs)\<close> assms
    have "length (drop (nat start) xs) \<le> nat n"
      and "length (drop (nat start) xs) \<le> nat (int (length xs) - start)"
      by simp_all
    with False show ?thesis by (simp add: min_def)
  qed
  with True assms show ?thesis by (simp add: slice_def Let_def min_def)
next
  case False
  with assms have "drop (nat start) xs = []" by simp
  with False assms show ?thesis by (simp add: slice_def Let_def min_def)
qed

lemma slice_Nil: "slice [] start end_ix = []"
  by (simp add: slice_def Let_def)

lemma resolvedPageSize_pos: "0 < resolvedPageSize options"
  by (simp add: resolvedPageSize_def split: option.split)

lemma getProductsPaginated_success:
  assumes "getAllProducts up = Inr allProducts"
  shows "getProductsPaginated localeCompare up options =
     (let sorted = applySort localeCompare
                     (applyFilters allProducts (requestedFilters options)) (sort_opt options);
          total = int (length sorted);
          totalPages0 = max 1 \<lceil>(of_int total :: rat) / of_int (resolvedPageSize options)\<rceil>;
          clampedPage = min (max (requestedPage options) 1) totalPages0
      in Inr \<lparr> items = map toProductListItem
                          (slice sorted ((clampedPage - 1) * resolvedPageSize options)
                             ((clampedPage - 1) * resolvedPageSize options
                              + resolvedPageSize options)),
               total_pr = total,
               page = clampedPage,
               pageSize = resolvedPageSize options,
               totalPages = totalPages0 \<rparr>)"
  using assms
  by (simp add: getProductsPaginated_def Let_def resolvedPageSize_def requestedPage_def
      requestedFilters_def DEFAULT_PAGE_SIZE_def split: option.split)

text \<open>A failed catalog fetch is the result of the listing, unchanged.\<close>

lemma getProductsPaginated_failure:
  assumes "getAllProducts up = Inl e"
  shows "getProductsPaginated localeCompare up options = Inl e"
  using assms by (simp add: getProductsPaginated_def Let_def)

lemma getAllProducts_sampleUpstream:
  "getAllProducts (sampleUpstream dtos) = Inr (map mapDtoToDomain dtos)"
  by (simp add: getAllProducts_def fetchProductsFromDummyJson_def fetchJson_def
      sampleUpstream_def)

lemma mapDtoToDomain_sampleDto:
  "mapDtoToDomain (sampleDto t pr rt st c) = sampleProduct t pr rt st c"
  by (simp add: mapDtoToDomain_def sampleDto_def sampleProduct_def)

section \<open>Pagination\<close>

lemma paginated_invariant:
  assumes "getAllProducts up = Inr allProducts"
  shows "\<exists>r. getProductsPaginated localeCompare up options = Inr r
           \<and> 1 \<le> totalPages r \<and> 1 \<le> page r \<and> page r \<le> totalPages r
           \<and> page r = min (max (requestedPage options) 1) (totalPages r)
           \<and> pageSize r = resolvedPageSize options \<and> 0 < pageSize r
           \<and> (total_pr r = 0 \<longrightarrow> totalPages r = 1 \<and> page r = 1 \<and> items r = [])"
proof -
  have "0 < resolvedPageSize options" by (rule resolvedPageSize_pos)
  then show ?thesis
    unfolding getProductsPaginated_success [OF assms] Let_def
    by (simp add: slice_Nil)
qed

lemma applySort_Nil: "applySort localeCompare [] sortOrder = []"
  by (cases sortOrder) (simp_all add: applySort_def)

lemma page_count_covers:
  fixes n s :: int
  assumes "0 < s"
  shows "n \<le> max 1 \<lceil>(of_int n :: rat) / of_int s\<rceil> * s"
    and "0 < n \<Longrightarrow> (max 1 \<lceil>(of_int n :: rat) / of_int s\<rceil> - 1) * s < n"
proof -
  let ?q = "(- n) div s"
  have ceil: "\<lceil>(of_int n :: rat) / of_int s\<rceil> = - ?q"
    by (simp add: ceiling_divide_eq_div)
  have split: "- n = s * ?q + (- n) mod s" by simp
  from assms have low: "0 \<le> (- n) mod s" and high: "(- n) mod s < s" by simp_all
  from split low have up: "n \<le> - (s * ?q)" by linarith
  from split high have down: "- (s * ?q) - s < n" by linarith
  show "n \<le> max 1 \<lceil>(of_int n :: rat) / of_int s\<rceil> * s"
  proof (cases "1 \<le> - ?q")
    case True
    with up show ?thesis by (simp add: ceil max_def algebra_simps)
  next
    case False
    then have "0 \<le> ?q" by simp
    with assms have "0 \<le> s * ?q" by simp
    with up assms have "n \<le> s" by linarith
    with False show ?thesis by (simp add: ceil max_def)
  qed
  show "(max 1 \<lceil>(of_int n :: rat) / of_int s\<rceil> - 1) * s < n" if "0 < n"
  proof (cases "1 \<le> - ?q")
    case True
    with down show ?thesis by (simp add: ceil max_def algebra_simps)
  next
    case False
    with that show ?thesis by (simp add: ceil max_def)
  qed
qed

lemma paginated_pages:
  assumes "getAllProducts up = Inr allProducts"
  shows "\<exists>r. getProductsPaginated localeCompare up options = Inr r
           \<and> total_pr r = int (length (applyFilters allProducts (requestedFilters options)))
           \<and> totalPages r
               = max 1 \<lceil>(of_int (int (length (applyFilters allProducts
                                                  (requestedFilters options)))) :: rat)
                          / of_int (resolvedPageSize options)\<rceil>
           \<and> 1 \<le> totalPages r \<and> 1 \<le> page r \<and> page r \<le> totalPages r
           \<and> page r = min (max (requestedPage options) 1) (totalPages r)
           \<and> pageSize r = resolvedPageSize options \<and> 0 < pageSize r
           \<and> (applyFilters allProducts (requestedFilters options) = []
                \<longrightarrow> totalPages r = 1 \<and> page r = 1 \<and> items r = [])"
proof -
  let ?filtered = "applyFilters allProducts (requestedFilters options)"
  let ?sorted = "applySort localeCompare ?filtered (sort_opt options)"
  let ?pages = "max 1 \<lceil>(of_int (int (length ?sorted)) :: rat)
                          / of_int (resolvedPageSize options)\<rceil>"
  let ?page = "min (max (requestedPage options) 1) ?pages"
  define r where "r =
     \<lparr> items = map toProductListItem
                 (slice ?sorted ((?page - 1) * resolvedPageSize options)
                    ((?page - 1) * resolvedPageSize options + resolvedPageSize options)),
       total_pr = int (length ?sorted), page = ?page,
       pageSize = resolvedPageSize options, totalPages = ?pages \<rparr>"
  have result: "getProductsPaginated localeCompare up options = Inr r"
    unfolding getProductsPaginated_success [OF assms] Let_def r_def ..
  have total: "total_pr r = int (length ?filtered)"
    by (simp add: r_def length_applySort)
  have pages: "totalPages r = max 1 \<lceil>(of_int (int (length ?filtered)) :: rat)
                                       / of_int (resolvedPageSize options)\<rceil>"
    by (simp add: r_def length_applySort)
  have size: "pageSize r = resolvedPageSize options" and positive: "0 < pageSize r"
    using resolvedPageSize_pos [of options] by (simp_all add: r_def)
  have atleast: "1 \<le> totalPages r" by (simp add: r_def)
  have clamp: "page r = min (max (requestedPage options) 1) (totalPages r)"
    by (simp add: r_def)
  with atleast have range: "1 \<le> page r" "page r \<le> totalPages r" by simp_all
  have empty: "totalPages r = 1 \<and> page r = 1 \<and> items r = []" if "?filtered = []"
    using that by (simp add: r_def applySort_Nil slice_Nil)
  from result total pages atleast range clamp size positive empty show ?thesis by blast
qed

text \<open>
  C5. Once the catalog has been fetched, pagination returns a result for every requested
  page and page size, present or absent, positive or not. Its total is the number of
  records that pass the filter, its page size is the requested one when positive and 20
  otherwise, and its page count is the number of pages of that size the filtered records
  fill, but at least 1: the pages hold all of them and the last one is not empty. The
  resolved page is the requested page clamped between 1 and the page count. When no
  record passes the filter the result is the single page 1 with no items.
\<close>

theorem getProductsPaginated_page_invariant:
  assumes "getAllProducts up = Inr allProducts"
  shows "\<exists>r. getProductsPaginated localeCompare up options = Inr r
           \<and> total_pr r = int (length (applyFilters allProducts (requestedFilters options)))
           \<and> totalPages r
               = max 1 \<lceil>(of_int (int (length (applyFilters allProducts
                                                  (requestedFilters options)))) :: rat)
                          / of_int (resolvedPageSize options)\<rceil>
           \<and> total_pr r \<le> totalPages r * pageSize r
           \<and> (0 < total_pr r \<longrightarrow> (totalPages r - 1) * pageSize r < total_pr r)
           \<and> 1 \<le> totalPages r \<and> 1 \<le> page r \<and> page r \<le> totalPages r
           \<and> page r = min (max (requestedPage options) 1) (totalPages r)
           \<and> pageSize r = resolvedPageSize options \<and> 0 < pageSize r
           \<and> (applyFilters allProducts (requestedFilters options) = []
                \<longrightarrow> totalPages r = 1 \<and> page r = 1 \<and> items r = [])"
proof -
  let ?n = "int (length (applyFilters allProducts (requestedFilters options)))"
  from paginated_pages [OF assms, of localeCompare options]
  obtain r where result: "getProductsPaginated localeCompare up options = Inr r"
    and total: "total_pr r = ?n"
    and pages: "totalPages r
                  = max 1 \<lceil>(of_int ?n :: rat) / of_int (resolvedPageSize options)\<rceil>"
    and range: "1 \<le> totalPages r" "1 \<le> page r" "page r \<le> totalPages r"
    and clamp: "page r = min (max (requestedPage options) 1) (totalPages r)"
    and size: "pageSize r = resolvedPageSize options" "0 < pageSize r"
    and empty: "applyFilters allProducts (requestedFilters options) = []
                  \<longrightarrow> totalPages r = 1 \<and> page r = 1 \<and> items r = []"
    by blast
  from size have positive: "0 < resolvedPageSize options" by simp
  have covers: "total_pr r \<le> totalPages r * pageSize r"
    unfolding total pages size(1) by (rule page_count_covers(1) [OF positive])
  have tight: "(totalPages r - 1) * pageSize r < total_pr r" if "0 < total_pr r"
    using that unfolding total pages size(1) by (rule page_count_covers(2) [OF positive])
  from result total pages covers tight range clamp size empty show ?thesis by blast
qed

theorem getProductsPaginated_page_invariant_witness:
  "getAllProducts
     (sampleUpstream [sampleDto ''a'' 5 4 3 ''c'', sampleDto ''b'' 7 4 3 ''c'',
                      sampleDto ''d'' 9 4 3 ''c''])
     = Inr [sampleProduct ''a'' 5 4 3 ''c'', sampleProduct ''b'' 7 4 3 ''c'',
            sampleProduct ''d'' 9 4 3 ''c'']
   \<and> (\<exists>r. getProductsPaginated (\<lambda>a b. 0)
              (sampleUpstream [sampleDto ''a'' 5 4 3 ''c'', sampleDto ''b'' 7 4 3 ''c'',
                               sampleDto ''d'' 9 4 3 ''c''])
              \<lparr> filters_opt = None, sort_opt = None, page_opt = Some 5,
                pageSize_opt = Some 2 \<rparr> = Inr r
            \<and> total_pr r = 3 \<and> totalPages r = 2 \<and> page r = 2 \<and> pageSize r = 2)
   \<and> applyFilters
       [sampleProduct ''a'' 5 4 3 ''c'', sampleProduct ''b'' 7 4 3 ''c'',
        sampleProduct ''d'' 9 4 3 ''c'']
       (emptyFilters\<lparr>minPrice := Some 100\<rparr>) = []
   \<and> (\<exists>r. getProductsPaginated (\<lambda>a b. 0)
              (sampleUpstream [sampleDto ''a'' 5 4 3 ''c'', sampleDto ''b'' 7 4 3 ''c'',
                               sampleDto ''d'' 9 4 3 ''c''])
              \<lparr> filters_opt = Some (emptyFilters\<lparr>minPrice := Some 100\<rparr>),
                sort_opt = None, page_opt = Some 0, pageSize_opt = Some (- 3) \<rparr> = Inr r
            \<and> total_pr r = 0 \<and> totalPages r = 1 \<and> page r = 1 \<and> pageSize r = 20
            \<and> items r = [])"
proof -
  let ?dtos = "[sampleDto ''a'' 5 4 3 ''c'', sampleDto ''b'' 7 4 3 ''c'',
                sampleDto ''d'' 9 4 3 ''c'']"
  let ?products = "[sampleProduct ''a'' 5 4 3 ''c'', sampleProduct ''b'' 7 4 3 ''c'',
                    sampleProduct ''d'' 9 4 3 ''c'']"
  let ?all = "\<lparr> filters_opt = None, sort_opt = None, page_opt = Some 5,
                pageSize_opt = Some 2 \<rparr>"
  let ?none = "\<lparr> filters_opt = Some (emptyFilters\<lparr>minPrice := Some 100\<rparr>),
                 sort_opt = None, page_opt = Some 0, pageSize_opt = Some (- 3) \<rparr>"
  have fetched: "getAllProducts (sampleUpstream ?dtos) = Inr ?products"
    using getAllProducts_sampleUpstream [of ?dtos] by (simp add: mapDtoToDomain_sampleDto)
  have kept: "applyFilters ?products (requestedFilters ?all) = ?products"
    by code_simp
  have dropped: "applyFilters ?products (emptyFilters\<lparr>minPrice := Some 100\<rparr>) = []"
    by code_simp
  then have dropped': "applyFilters ?products (requestedFilters ?none) = []"
    by (simp add: requestedFilters_def)
  have ceil: "\<lceil>(3 :: rat) / 2\<rceil> = 2"
    using ceiling_divide_eq_div [of 3 2, where ?'a = rat] by simp
  from getProductsPaginated_page_invariant [OF fetched, of "\<lambda>a b. 0" ?all]
  obtain r where "getProductsPaginated (\<lambda>a b. 0) (sampleUpstream ?dtos) ?all = Inr r"
    and "total_pr r = int (length (applyFilters ?products (requestedFilters ?all)))"
    and "totalPages r
           = max 1 \<lceil>(of_int (int (length (applyFilters ?products
                                               (requestedFilters ?all)))) :: rat)
                      / of_int (resolvedPageSize ?all)\<rceil>"
    and "page r = min (max (requestedPage ?all) 1) (totalPages r)"
    and "pageSize r = resolvedPageSize ?all"
    by blast
  then have first: "\<exists>r. getProductsPaginated (\<lambda>a b. 0) (sampleUpstream ?dtos) ?all = Inr r
                      \<and> total_pr r = 3 \<and> totalPages r = 2 \<and> page r = 2 \<and> pageSize r = 2"
    unfolding kept by (simp add: resolvedPageSize_def requestedPage_def ceil)
  from getProductsPaginated_page_invariant [OF fetched, of "\<lambda>a b. 0" ?none]
  obtain r' where "getProductsPaginated (\<lambda>a b. 0) (sampleUpstream ?dtos) ?none = Inr r'"
    and "total_pr r' = int (length (applyFilters ?products (requestedFilters ?none)))"
    and "pageSize r' = resolvedPageSize ?none"
    and "applyFilters ?products (requestedFilters ?none) = []
           \<longrightarrow> totalPages r' = 1 \<and> page r' = 1 \<and> items r' = []"
    by blast
  then have second: "\<exists>r. getProductsPaginated (\<lambda>a b. 0) (sampleUpstream ?dtos) ?none = Inr r
                       \<and> total_pr r = 0 \<and> totalPages r = 1 \<and> page r = 1 \<and> pageSize r = 20
                       \<and> items r = []"
    unfolding dropped' by (simp add: resolvedPageSize_def)
  from fetched first dropped second show ?thesis by blast
qed

section \<open>Filter, then sort, then paginate\<close>

lemma paginated_pipeline:
  assumes "getAllProducts up = Inr allProducts"
  shows "\<exists>r. getProductsPaginated localeCompare up options = Inr r
           \<and> total_pr r = int (length (applyFilters allProducts (requestedFilters options)))
           \<and> items r = map toProductListItem
                 (take (nat (pageSize r)) (drop (nat ((page r - 1) * pageSize r))
                    (applySort localeCompare
                       (applyFilters allProducts (requestedFilters options))
                       (sort_opt options))))
           \<and> (\<forall>p s. \<exists>r'. getProductsPaginated localeCompare up
                              (options\<lparr>page_opt := p, pageSize_opt := s\<rparr>) = Inr r'
                         \<and> total_pr r' = total_pr r)"
proof -
  let ?sorted = "applySort localeCompare
                   (applyFilters allProducts (requestedFilters options)) (sort_opt options)"
  let ?pages = "max 1 \<lceil>(of_int (int (length ?sorted)) :: rat)
                          / of_int (resolvedPageSize options)\<rceil>"
  let ?page = "min (max (requestedPage options) 1) ?pages"
  have size: "0 < resolvedPageSize options" by (rule resolvedPageSize_pos)
  have "1 \<le> ?page" by (simp add: le_max_iff_disj)
  then have "0 \<le> ?page - 1" by linarith
  moreover have "0 \<le> resolvedPageSize options" using size by simp
  ultimately have start: "0 \<le> (?page - 1) * resolvedPageSize options"
    by (rule mult_nonneg_nonneg)
  have window:
    "slice ?sorted ((?page - 1) * resolvedPageSize options)
       ((?page - 1) * resolvedPageSize options + resolvedPageSize options)
     = take (nat (resolvedPageSize options))
         (drop (nat ((?page - 1) * resolvedPageSize options)) ?sorted)"
    using start size by (intro slice_window) simp_all
  define r where "r =
     \<lparr> items = map toProductListItem
                 (slice ?sorted ((?page - 1) * resolvedPageSize options)
                    ((?page - 1) * resolvedPageSize options + resolvedPageSize options)),
       total_pr = int (length ?sorted), page = ?page,
       pageSize = resolvedPageSize options, totalPages = ?pages \<rparr>"
  have result: "getProductsPaginated localeCompare up options = Inr r"
    unfolding getProductsPaginated_success [OF assms] Let_def r_def ..
  have total: "total_pr r = int (length (applyFilters allProducts (requestedFilters options)))"
    by (simp add: r_def length_applySort)
  have "items r = map toProductListItem
          (take (nat (resolvedPageSize options))
             (drop (nat ((?page - 1) * resolvedPageSize options)) ?sorted))"
    unfolding window [symmetric] by (simp add: r_def)
  moreover have "page r = ?page" and "pageSize r = resolvedPageSize options"
    by (simp_all add: r_def)
  ultimately have window_items: "items r = map toProductListItem
          (take (nat (pageSize r)) (drop (nat ((page r - 1) * pageSize r)) ?sorted))"
    by simp
  have other: "\<exists>r'. getProductsPaginated localeCompare up
                       (options\<lparr>page_opt := p, pageSize_opt := s\<rparr>) = Inr r'
                  \<and> total_pr r' = total_pr r" for p s
    unfolding getProductsPaginated_success [OF assms] Let_def
    by (simp add: total length_applySort requestedFilters_def)
  from result total window_items other show ?thesis by blast
qed



section \<open>Insights and listing share one population\<close>

lemma getProductsForInsights_success:
  assumes "getAllProducts up = Inr allProducts"
  shows "getProductsForInsights up filters0
           = Inr (applyFilters allProducts (defaultedFilters filters0))"
  using assms by (simp add: getProductsForInsights_def defaultedFilters_def)

text \<open>A failed catalog fetch is the result of the insights operation, unchanged.\<close>

lemma getProductsInsights_failure:
  assumes "getAllProducts up = Inl e"
  shows "getProductsInsights up filters0 = Inl e"
  using assms by (simp add: getProductsInsights_def getProductsForInsights_def)

lemma requestedFilters_record [simp]:
  "requestedFilters \<lparr> filters_opt = filters0, sort_opt = s, page_opt = p, pageSize_opt = n \<rparr>
     = defaultedFilters filters0"
  by (simp add: requestedFilters_def defaultedFilters_def)

text \<open>
  C1. Once the catalog has been fetched, the records the insights snapshot is computed
  over are \<open>applyFilters\<close> of the catalog under the given criteria. The listing for the same
  criteria reports their number as its total, whatever sort order, page and page size are
  requested, and a listing whose single page holds the whole result has exactly these
  records as its items (projected, up to the sort order).
\<close>

theorem insights_population_matches_listing:
  assumes "getAllProducts up = Inr allProducts"
  shows "getProductsForInsights up filters0
           = Inr (applyFilters allProducts (defaultedFilters filters0))
         \<and> getProductsInsights up filters0
           = Inr (computeInsights (applyFilters allProducts (defaultedFilters filters0)))
         \<and> (\<exists>r. getProductsPaginated localeCompare up
                  \<lparr> filters_opt = filters0, sort_opt = s, page_opt = p, pageSize_opt = n \<rparr>
                = Inr r
              \<and> total_pr r
                = int (totalProducts
                         (computeInsights (applyFilters allProducts (defaultedFilters filters0)))))
         \<and> (\<exists>r. getProductsPaginated localeCompare up
                  \<lparr> filters_opt = filters0, sort_opt = s, page_opt = None,
                    pageSize_opt = Some (int (length allProducts) + 1) \<rparr>
                = Inr r
              \<and> mset (items r)
                = mset (map toProductListItem
                          (applyFilters allProducts (defaultedFilters filters0))))"
proof (intro conjI)
  let ?population = "applyFilters allProducts (defaultedFilters filters0)"
  show pop: "getProductsForInsights up filters0 = Inr ?population"
    by (rule getProductsForInsights_success [OF assms])
  show "getProductsInsights up filters0 = Inr (computeInsights ?population)"
    by (simp add: getProductsInsights_def pop)
  let ?options = "\<lparr> filters_opt = filters0, sort_opt = s, page_opt = p, pageSize_opt = n \<rparr>"
  from paginated_pipeline [OF assms, of localeCompare ?options]
  obtain r where "getProductsPaginated localeCompare up ?options = Inr r"
    and "total_pr r = int (length ?population)"
    by auto
  then show "\<exists>r. getProductsPaginated localeCompare up ?options = Inr r
               \<and> total_pr r = int (totalProducts (computeInsights ?population))"
    by (simp add: computeInsights_def)
  let ?whole = "\<lparr> filters_opt = filters0, sort_opt = s, page_opt = None,
                  pageSize_opt = Some (int (length allProducts) + 1) \<rparr>"
  let ?sorted = "applySort localeCompare ?population s"
  from paginated_pipeline [OF assms, of localeCompare ?whole]
    paginated_invariant [OF assms, of localeCompare ?whole]
  obtain r where r: "getProductsPaginated localeCompare up ?whole = Inr r"
    and total: "total_pr r = int (length ?population)"
    and window: "items r = map toProductListItem
                   (take (nat (pageSize r)) (drop (nat ((page r - 1) * pageSize r)) ?sorted))"
    and size: "pageSize r = resolvedPageSize ?whole"
    and pg: "page r = min (max (requestedPage ?whole) 1) (totalPages r)"
    and pages: "1 \<le> totalPages r"
    by auto
  have "length ?population \<le> length allProducts"
    by (simp add: applyFilters_def)
  then have "length ?sorted \<le> nat (pageSize r)"
    by (simp add: size resolvedPageSize_def length_applySort)
  moreover have "page r = 1"
    using pg pages by (simp add: requestedPage_def)
  ultimately have "items r = map toProductListItem ?sorted"
    using window by simp
  then have "mset (items r) = mset (map toProductListItem ?population)"
    by (simp add: mset_applySort)
  with r show "\<exists>r. getProductsPaginated localeCompare up ?whole = Inr r
                 \<and> mset (items r) = mset (map toProductListItem ?population)"
    by blast
qed

theorem insights_population_matches_listing_witness:
  "getAllProducts (sampleUpstream [sampleDto ''b'' 7 4 3 ''c'', sampleDto ''a'' 5 4 3 ''e''])
     = Inr [sampleProduct ''b'' 7 4 3 ''c'', sampleProduct ''a'' 5 4 3 ''e'']
   \<and> getProductsForInsights
       (sampleUpstream [sampleDto ''b'' 7 4 3 ''c'', sampleDto ''a'' 5 4 3 ''e''])
       (Some (emptyFilters\<lparr>minPrice := Some 6\<rparr>))
     = Inr [sampleProduct ''b'' 7 4 3 ''c'']"
proof -
  let ?dtos = "[sampleDto ''b'' 7 4 3 ''c'', sampleDto ''a'' 5 4 3 ''e'']"
  have fetched: "getAllProducts (sampleUpstream ?dtos)
                   = Inr [sampleProduct ''b'' 7 4 3 ''c'', sampleProduct ''a'' 5 4 3 ''e'']"
    using getAllProducts_sampleUpstream [of ?dtos] by (simp add: mapDtoToDomain_sampleDto)
  have "applyFilters [sampleProduct ''b'' 7 4 3 ''c'', sampleProduct ''a'' 5 4 3 ''e'']
          (defaultedFilters (Some (emptyFilters\<lparr>minPrice := Some 6\<rparr>)))
        = [sampleProduct ''b'' 7 4 3 ''c'']"
    by code_simp
  with insights_population_matches_listing
         [OF fetched, of "Some (emptyFilters\<lparr>minPrice := Some 6\<rparr>)"] fetched
  show ?thesis by simp
qed

section \<open>Insights of the empty set\<close>

lemma computeInsights_Nil: "computeInsights [] = emptyInsights"
  by (simp add: computeInsights_def emptyInsights_def computeAveragePrice_def
      computeAverageRating_def computeAverageStock_def computeTotalStock_def
      computeMostCommonCategory_def computeLowStockCount_def computeTopRatedProducts_def
      computeStockByCategory_def slice_Nil)

text \<open>
  C9. The snapshot of the empty record set has the three means equal to 0, total stock 0,
  no most common category, low-stock count 0, and empty lists of top-rated products and
  of stock by category; the insights operation returns this snapshot whenever no record
  passes the filter.
\<close>

theorem insights_of_empty_set:
  "averagePriceGlobal (computeInsights []) = 0
   \<and> averageRatingGlobal (computeInsights []) = 0
   \<and> averageStockGlobal (computeInsights []) = 0
   \<and> totalProducts (computeInsights []) = 0
   \<and> totalStock (computeInsights []) = 0
   \<and> mostCommonCategory (computeInsights []) = None
   \<and> lowStockCount (computeInsights []) = 0
   \<and> topRatedProducts (computeInsights []) = []
   \<and> stockByCategory (computeInsights []) = []
   \<and> (getProductsForInsights up filters0 = Inr []
        \<longrightarrow> getProductsInsights up filters0 = Inr emptyInsights)"
  by (simp add: computeInsights_Nil getProductsInsights_def) (simp add: emptyInsights_def)

theorem insights_of_empty_set_witness:
  "getProductsForInsights (sampleUpstream [sampleDto ''a'' 5 4 3 ''e''])
     (Some (emptyFilters\<lparr>minPrice := Some 6\<rparr>)) = Inr []
   \<and> getProductsInsights (sampleUpstream [sampleDto ''a'' 5 4 3 ''e''])
     (Some (emptyFilters\<lparr>minPrice := Some 6\<rparr>)) = Inr emptyInsights"
proof -
  have "getProductsForInsights (sampleUpstream [sampleDto ''a'' 5 4 3 ''e''])
          (Some (emptyFilters\<lparr>minPrice := Some 6\<rparr>)) = Inr []"
    by code_simp
  with insights_of_empty_set
         [of "sampleUpstream [sampleDto ''a'' 5 4 3 ''e'']"
             "Some (emptyFilters\<lparr>minPrice := Some 6\<rparr>)"]
  show ?thesis by simp
qed

section \<open>Lookup of one record\<close>

lemma getProductById_not_found_iff:
  "getProductById up ident = Inr None
     \<longleftrightarrow> (\<forall>dto. product_response up ident \<noteq> Responded_ok dto)"
  by (cases "product_response up ident")
     (simp_all add: getProductById_def fetchProductByIdFromDummyJson_def fetchJson_def Let_def)

lemma getProductById_never_rejects: "getProductById up ident \<noteq> Inl e"
  by (simp add: getProductById_def Let_def split: sum.split option.split)

text \<open>
  C2. On an upstream that times out, answers with status 500 or cannot be reached,
  \<open>getProductById\<close> does not surface the failure: it returns the same not-found result as
  on an upstream that answers 404, although the fetch layer reports four different
  errors (statuses 404, 408, 500 and 502).
\<close>

theorem getProductById_failure_reported_as_not_found:
  "getProductById (upstreamAnswering (Responded_failure 404 None)) 1 = Inr None
   \<and> getProductById (upstreamAnswering Timed_out) 1 = Inr None
   \<and> getProductById (upstreamAnswering (Responded_failure 500 None)) 1 = Inr None
   \<and> getProductById (upstreamAnswering (Network_error ''ECONNREFUSED'')) 1 = Inr None
   \<and> map_sum status id (fetchProductByIdFromDummyJson (upstreamAnswering (Responded_failure 404 None)) 1)
       = Inl 404
   \<and> map_sum status id (fetchProductByIdFromDummyJson (upstreamAnswering Timed_out) 1)
       = Inl 408
   \<and> map_sum status id (fetchProductByIdFromDummyJson (upstreamAnswering (Responded_failure 500 None)) 1)
       = Inl 500
   \<and> map_sum status id
        (fetchProductByIdFromDummyJson (upstreamAnswering (Network_error ''ECONNREFUSED'')) 1)
       = Inl 502"
  by (simp add: getProductById_def fetchProductByIdFromDummyJson_def fetchJson_def
      upstreamAnswering_def)

section \<open>Filtering\<close>

lemma startsWith_prefix: "startsWith s needle \<longleftrightarrow> prefix needle s"
  by (induction s needle rule: startsWith.induct) auto

lemma toLowerCase_Nil: "toLowerCase [] = []"
  by (simp add: toLowerCase_def)

lemma includes_str_sublist: "includes_str haystack needle \<longleftrightarrow> sublist needle haystack"
  by (induction haystack) (simp_all add: startsWith_prefix sublist_Cons_right)

lemma keepProduct_specKeepsNonEmpty: "keepProduct criteria = specKeepsNonEmpty criteria"
proof (rule ext)
  fix product
  show "keepProduct criteria product = specKeepsNonEmpty criteria product"
  proof (cases "search criteria")
    case None
    then show ?thesis
      by (auto simp add: keepProduct_def specKeepsNonEmpty_def specOtherCriteria_def
          truthy_def not_less split: option.splits)
  next
    case (Some s)
    then show ?thesis
      by (cases s)
         (auto simp add: keepProduct_def specKeepsNonEmpty_def specOtherCriteria_def
           truthy_def not_less includes_str_sublist haystackOf_def Let_def toLowerCase_Nil
           split: option.splits)
  qed
qed

text \<open>
  C3 as stated fails: with the category criterion set to the empty string the
  specification's filter keeps only records of empty category, and \<open>applyFilters\<close> keeps
  a record of category \<open>laptops\<close>.
\<close>

theorem applyFilters_empty_category_counterexample:
  "applyFilters [sampleProduct ''x'' 1 1 1 ''laptops''] (emptyFilters\<lparr>category_f := Some []\<rparr>)
     = [sampleProduct ''x'' 1 1 1 ''laptops'']
   \<and> filter (specKeeps (emptyFilters\<lparr>category_f := Some []\<rparr>))
       [sampleProduct ''x'' 1 1 1 ''laptops''] = []"
  by (simp add: applyFilters_def keepProduct_def specKeeps_def emptyFilters_def
      sampleProduct_def)

text \<open>
  C3, amended. For every record list and every criteria set, \<open>applyFilters\<close> returns the
  subsequence of the input, in input order, of exactly the records that satisfy all
  specified criteria: category by exact string equality when the category criterion is a
  non-empty string, price at least \<open>minPrice\<close>, price at most \<open>maxPrice\<close>, stock at most
  \<open>maxStock\<close>, and the lowercased search text a substring of the lowercased
  space-joined title, description and category. A criterion that is absent, and a
  category criterion that is the empty string, exclude no record.
\<close>

theorem applyFilters_subsequence_of_matching:
  "applyFilters records criteria = filter (specKeepsNonEmpty criteria) records
   \<and> subseq (applyFilters records criteria) records
   \<and> set (applyFilters records criteria)
       = {record \<in> set records. specKeepsNonEmpty criteria record}
   \<and> applyFilters records emptyFilters = records"
proof -
  have "specKeepsNonEmpty emptyFilters = (\<lambda>record. True)"
    by (rule ext) (simp add: specKeepsNonEmpty_def specOtherCriteria_def emptyFilters_def)
  then show ?thesis
    by (simp add: applyFilters_def keepProduct_specKeepsNonEmpty)
qed

theorem applyFilters_subsequence_of_matching_witness:
  "applyFilters
     [sampleProduct ''Galaxy'' 799 4 30 ''smartphones'', sampleProduct ''XPS'' 1299 4 20 ''laptops'']
     (emptyFilters\<lparr>search := Some ''GALAXY'', minPrice := Some 700\<rparr>)
   = [sampleProduct ''Galaxy'' 799 4 30 ''smartphones'']
   \<and> specKeepsNonEmpty (emptyFilters\<lparr>search := Some ''GALAXY'', minPrice := Some 700\<rparr>)
        (sampleProduct ''Galaxy'' 799 4 30 ''smartphones'')"
proof -
  let ?records = "[sampleProduct ''Galaxy'' 799 4 30 ''smartphones'',
                   sampleProduct ''XPS'' 1299 4 20 ''laptops'']"
  let ?criteria = "emptyFilters\<lparr>search := Some ''GALAXY'', minPrice := Some 700\<rparr>"
  have computed: "applyFilters ?records ?criteria
                    = [sampleProduct ''Galaxy'' 799 4 30 ''smartphones'']"
    by code_simp
  have "set (applyFilters ?records ?criteria)
          = {record \<in> set ?records. specKeepsNonEmpty ?criteria record}"
    using applyFilters_subsequence_of_matching [of ?records ?criteria] by blast
  moreover have "sampleProduct ''Galaxy'' 799 4 30 ''smartphones''
                   \<in> set (applyFilters ?records ?criteria)"
    unfolding computed by simp
  ultimately
  have "specKeepsNonEmpty ?criteria (sampleProduct ''Galaxy'' 799 4 30 ''smartphones'')"
    by blast
  with computed show ?thesis by blast
qed

section \<open>Stable sorting\<close>

lemma set_sortInsert: "set (sortInsert compareFn x ys) = insert x (set ys)"
  by (induction ys) auto

lemma sorted_sortInsert:
  assumes "consistentComparator compareFn"
    and "sorted_wrt (\<lambda>a b. compareFn a b \<le> 0) ys"
  shows "sorted_wrt (\<lambda>a b. compareFn a b \<le> 0) (sortInsert compareFn x ys)"
  using assms(2)
proof (induction ys)
  case Nil
  then show ?case by simp
next
  case (Cons y ys)
  from assms(1) have total: "compareFn a b \<le> 0 \<or> compareFn b a \<le> 0" for a b
    unfolding consistentComparator_def by blast
  from assms(1) have trans: "compareFn a b \<le> 0 \<Longrightarrow> compareFn b c \<le> 0 \<Longrightarrow> compareFn a c \<le> 0"
    for a b c
    unfolding consistentComparator_def by blast
  show ?case
  proof (cases "compareFn x y \<le> 0")
    case True
    from Cons.prems have "\<forall>z \<in> set ys. compareFn y z \<le> 0" by simp
    with True have "\<forall>z \<in> set ys. compareFn x z \<le> 0" using trans by blast
    with True Cons.prems show ?thesis by simp
  next
    case False
    with total [of x y] have "compareFn y x \<le> 0" by simp
    with False Cons show ?thesis by (simp add: set_sortInsert)
  qed
qed

lemma sorted_arraySort:
  assumes "consistentComparator compareFn"
  shows "sorted_wrt (\<lambda>a b. compareFn a b \<le> 0) (arraySort compareFn xs)"
  by (induction xs) (simp_all add: sorted_sortInsert [OF assms])

lemma filter_sortInsert_in:
  assumes "P x" and "\<And>y. P y \<Longrightarrow> compareFn x y \<le> 0"
  shows "filter P (sortInsert compareFn x ys) = x # filter P ys"
  using assms by (induction ys) auto

lemma filter_sortInsert_out:
  assumes "\<not> P x"
  shows "filter P (sortInsert compareFn x ys) = filter P ys"
  using assms by (induction ys) auto

lemma stable_arraySort:
  assumes "consistentComparator compareFn"
  shows "filter (\<lambda>y. compareFn z y \<le> 0 \<and> compareFn y z \<le> 0) (arraySort compareFn xs)
           = filter (\<lambda>y. compareFn z y \<le> 0 \<and> compareFn y z \<le> 0) xs"
proof (induction xs)
  case Nil
  then show ?case by simp
next
  case (Cons x xs)
  let ?tie = "\<lambda>y. compareFn z y \<le> 0 \<and> compareFn y z \<le> 0"
  from assms have trans: "compareFn a b \<le> 0 \<Longrightarrow> compareFn b c \<le> 0 \<Longrightarrow> compareFn a c \<le> 0"
    for a b c
    unfolding consistentComparator_def by blast
  show ?case
  proof (cases "?tie x")
    case True
    then have "\<And>y. ?tie y \<Longrightarrow> compareFn x y \<le> 0" by (blast intro: trans)
    with True have "filter ?tie (sortInsert compareFn x (arraySort compareFn xs))
                      = x # filter ?tie (arraySort compareFn xs)"
      by (intro filter_sortInsert_in) simp_all
    with True Cons.IH show ?thesis by simp
  next
    case False
    then have "filter ?tie (sortInsert compareFn x (arraySort compareFn xs))
                 = filter ?tie (arraySort compareFn xs)"
      by (intro filter_sortInsert_out) simp
    with False Cons.IH show ?thesis by simp
  qed
qed

text \<open>Under the \<^verbatim>\<open>default\<close> branch of the comparator the array keeps its order.\<close>

lemma arraySort_constant_zero: "arraySort (\<lambda>a b. 0) xs = xs"
proof (induction xs)
  case Nil
  then show ?case by simp
next
  case (Cons x xs)
  then show ?case by (cases xs) simp_all
qed

section \<open>The six sort orders\<close>

lemma compareProducts_mayPrecede:
  "compareProducts localeCompare sortOrder a b \<le> 0 \<longleftrightarrow> mayPrecede localeCompare sortOrder a b"
  by (cases sortOrder) (simp_all add: compareProducts_def mayPrecede_def)

lemma equalKeys_mayPrecede:
  "equalKeys localeCompare sortOrder a b
     \<longleftrightarrow> mayPrecede localeCompare sortOrder a b \<and> mayPrecede localeCompare sortOrder b a"
  by (cases sortOrder) (auto simp add: equalKeys_def mayPrecede_def)

lemma consistent_compareProducts:
  assumes "consistentComparator localeCompare"
  shows "consistentComparator (compareProducts localeCompare sortOrder)"
proof -
  from assms have total: "\<forall>s t. localeCompare s t \<le> 0 \<or> localeCompare t s \<le> 0"
    and trans: "\<forall>s t u. localeCompare s t \<le> 0 \<and> localeCompare t u \<le> 0
                  \<longrightarrow> localeCompare s u \<le> 0"
    unfolding consistentComparator_def by blast+
  have asc_total: "\<forall>a b :: Product. localeCompare (title a) (title b) \<le> 0
                     \<or> localeCompare (title b) (title a) \<le> 0"
    using total by blast
  have asc_trans: "\<forall>a b c :: Product.
                     localeCompare (title a) (title b) \<le> 0
                     \<and> localeCompare (title b) (title c) \<le> 0
                     \<longrightarrow> localeCompare (title a) (title c) \<le> 0"
    using trans by blast
  have desc_total: "\<forall>a b :: Product. localeCompare (title b) (title a) \<le> 0
                      \<or> localeCompare (title a) (title b) \<le> 0"
    using total by blast
  have desc_trans: "\<forall>a b c :: Product.
                      localeCompare (title b) (title a) \<le> 0
                      \<and> localeCompare (title c) (title b) \<le> 0
                      \<longrightarrow> localeCompare (title c) (title a) \<le> 0"
    using trans by blast
  have "consistentComparator (compareProducts localeCompare price_asc)"
    and "consistentComparator (compareProducts localeCompare price_desc)"
    and "consistentComparator (compareProducts localeCompare rating_asc)"
    and "consistentComparator (compareProducts localeCompare rating_desc)"
    and "consistentComparator (compareProducts localeCompare other_sort)"
    unfolding consistentComparator_def compareProducts_def ProductSort.case by auto
  moreover have "consistentComparator (compareProducts localeCompare title_asc)"
    unfolding consistentComparator_def compareProducts_def ProductSort.case
    by (rule conjI [OF asc_total asc_trans])
  moreover have "consistentComparator (compareProducts localeCompare title_desc)"
    unfolding consistentComparator_def compareProducts_def ProductSort.case
    by (rule conjI [OF desc_total desc_trans])
  ultimately show ?thesis by (cases sortOrder) simp_all
qed

lemma applySort_sorted:
  assumes "consistentComparator localeCompare"
  shows "sorted_wrt (mayPrecede localeCompare sortOrder)
           (applySort localeCompare products (Some sortOrder))"
  using sorted_arraySort [OF consistent_compareProducts [OF assms], of sortOrder products]
  by (simp add: applySort_def compareProducts_mayPrecede)

lemma applySort_stable:
  assumes "consistentComparator localeCompare"
  shows "filter (equalKeys localeCompare sortOrder x)
           (applySort localeCompare products (Some sortOrder))
         = filter (equalKeys localeCompare sortOrder x) products"
proof -
  have "equalKeys localeCompare sortOrder x
          = (\<lambda>y. compareProducts localeCompare sortOrder x y \<le> 0
                 \<and> compareProducts localeCompare sortOrder y x \<le> 0)"
    by (rule ext) (simp add: compareProducts_mayPrecede equalKeys_mayPrecede)
  then show ?thesis
    using stable_arraySort [OF consistent_compareProducts [OF assms], of sortOrder x products]
    by (simp add: applySort_def)
qed

lemma codeUnitCompare_total: "codeUnitCompare s t \<le> 0 \<or> codeUnitCompare t s \<le> 0"
  by (induction s t rule: codeUnitCompare.induct) auto

lemma codeUnitCompare_Cons_le:
  "codeUnitCompare (x # xs) (y # ys) \<le> 0
     \<longleftrightarrow> (of_char x :: nat) < of_char y
         \<or> ((of_char x :: nat) = of_char y \<and> codeUnitCompare xs ys \<le> 0)"
  by auto

lemma codeUnitCompare_trans:
  "codeUnitCompare s t \<le> 0 \<Longrightarrow> codeUnitCompare t u \<le> 0 \<Longrightarrow> codeUnitCompare s u \<le> 0"
proof (induction s t arbitrary: u rule: codeUnitCompare.induct)
  case 1
  then show ?case by simp
next
  case (2 y ys)
  then show ?case by (cases u) simp_all
next
  case (3 x xs)
  then show ?case by simp
next
  case (4 x xs y ys)
  show ?case
  proof (cases u)
    case Nil
    with "4.prems" show ?thesis by simp
  next
    case (Cons z zs)
    from "4.prems"(1)
    have first: "(of_char x :: nat) < of_char y
                 \<or> ((of_char x :: nat) = of_char y \<and> codeUnitCompare xs ys \<le> 0)"
      by (simp only: codeUnitCompare_Cons_le)
    from "4.prems"(2) Cons
    have second: "(of_char y :: nat) < of_char z
                  \<or> ((of_char y :: nat) = of_char z \<and> codeUnitCompare ys zs \<le> 0)"
      by (simp only: codeUnitCompare_Cons_le)
    have "(of_char x :: nat) < of_char z
          \<or> ((of_char x :: nat) = of_char z \<and> codeUnitCompare xs zs \<le> 0)"
    proof (cases "(of_char x :: nat) = of_char y \<and> (of_char y :: nat) = of_char z")
      case True
      with first second have "codeUnitCompare xs ys \<le> 0" and "codeUnitCompare ys zs \<le> 0"
        by simp_all
      with True "4.IH" [of zs] have "codeUnitCompare xs zs \<le> 0" by simp
      with True show ?thesis by simp
    next
      case False
      with first second have "(of_char x :: nat) < of_char z" by linarith
      then show ?thesis by simp
    qed
    with Cons show ?thesis by (simp only: codeUnitCompare_Cons_le)
  qed
qed

lemma consistent_codeUnitCompare: "consistentComparator codeUnitCompare"
  unfolding consistentComparator_def
  using codeUnitCompare_total codeUnitCompare_trans by blast

text \<open>
  C4. With a consistent \<open>localeCompare\<close>, for each of the six sort orders the result of
  \<open>applySort\<close> is a permutation of the input, is sorted by the stated key in the stated
  direction (numbers by \<open>\<le>\<close>, titles by the collation), and lists records of equal sort
  keys in their input order.
\<close>

theorem applySort_sorted_stable_permutation:
  assumes "consistentComparator localeCompare"
  shows "mset (applySort localeCompare products (Some sortOrder)) = mset products
         \<and> sorted_wrt (mayPrecede localeCompare sortOrder)
             (applySort localeCompare products (Some sortOrder))
         \<and> (\<forall>x. filter (equalKeys localeCompare sortOrder x)
                    (applySort localeCompare products (Some sortOrder))
                  = filter (equalKeys localeCompare sortOrder x) products)"
  using applySort_sorted [OF assms] applySort_stable [OF assms]
  by (simp add: mset_applySort)

theorem applySort_sorted_stable_permutation_witness:
  "consistentComparator codeUnitCompare
   \<and> applySort codeUnitCompare
       [sampleProduct ''b'' 7 4 3 ''c'', sampleProduct ''a'' 5 2 3 ''c'',
        sampleProduct ''b'' 3 4 3 ''c'']
       (Some title_asc)
     = [sampleProduct ''a'' 5 2 3 ''c'', sampleProduct ''b'' 7 4 3 ''c'',
        sampleProduct ''b'' 3 4 3 ''c'']
   \<and> sorted_wrt (mayPrecede codeUnitCompare title_asc)
       [sampleProduct ''a'' 5 2 3 ''c'', sampleProduct ''b'' 7 4 3 ''c'',
        sampleProduct ''b'' 3 4 3 ''c'']"
proof -
  let ?products = "[sampleProduct ''b'' 7 4 3 ''c'', sampleProduct ''a'' 5 2 3 ''c'',
                    sampleProduct ''b'' 3 4 3 ''c'']"
  have computed: "applySort codeUnitCompare ?products (Some title_asc)
                    = [sampleProduct ''a'' 5 2 3 ''c'', sampleProduct ''b'' 7 4 3 ''c'',
                       sampleProduct ''b'' 3 4 3 ''c'']"
    by code_simp
  have "sorted_wrt (mayPrecede codeUnitCompare title_asc)
          (applySort codeUnitCompare ?products (Some title_asc))"
    using applySort_sorted_stable_permutation
            [OF consistent_codeUnitCompare, of ?products title_asc]
    by blast
  with computed consistent_codeUnitCompare show ?thesis by simp
qed

section \<open>Most common category\<close>

lemma firstSeen_Nil: "firstSeen [] = []"
  by (simp add: firstSeen_def)

lemma firstSeen_snoc:
  "firstSeen (xs @ [x]) = (if x \<in> set xs then firstSeen xs else firstSeen xs @ [x])"
  by (simp add: firstSeen_def)

lemma set_firstSeen: "set (firstSeen xs) = set xs"
  by (simp add: firstSeen_def)

lemma distinct_firstSeen: "distinct (firstSeen xs)"
  by (simp add: firstSeen_def)

lemma firstSeen_append:
  "firstSeen (xs @ ys) = firstSeen xs @ filter (\<lambda>y. y \<notin> set xs) (firstSeen ys)"
proof (induction ys rule: rev_induct)
  case Nil
  then show ?case by (simp add: firstSeen_Nil)
next
  case (snoc y ys)
  have "firstSeen (xs @ ys @ [y]) = firstSeen ((xs @ ys) @ [y])" by simp
  also have "\<dots> = (if y \<in> set (xs @ ys) then firstSeen (xs @ ys)
                     else firstSeen (xs @ ys) @ [y])"
    by (rule firstSeen_snoc)
  finally show ?case
    using snoc.IH by (auto simp add: firstSeen_snoc)
qed

lemma takeWhile_until:
  "k \<notin> set A \<Longrightarrow> takeWhile (\<lambda>x. x \<noteq> k) (A @ k # B) = A"
  by (induction A) auto

lemma firstSeen_split:
  assumes "firstSeen xs = A @ k # B"
  shows "\<exists>before after. xs = before @ k # after \<and> k \<notin> set before \<and> set before = set A"
proof -
  have "k \<in> set (firstSeen xs)" using assms by simp
  then have "k \<in> set xs" by (simp add: set_firstSeen)
  then obtain before after where xs: "xs = before @ k # after" and fresh: "k \<notin> set before"
    by (auto dest: split_list_first)
  have "firstSeen xs = firstSeen before @ filter (\<lambda>y. y \<notin> set before) (firstSeen ([k] @ after))"
    unfolding xs using firstSeen_append [of before "k # after"] by simp
  also have "firstSeen ([k] @ after) = firstSeen [k] @ filter (\<lambda>y. y \<notin> set [k]) (firstSeen after)"
    by (rule firstSeen_append)
  also have "firstSeen [k] = [k]" by (simp add: firstSeen_def)
  finally have shape: "firstSeen xs = firstSeen before
                         @ k # filter (\<lambda>y. y \<notin> set before)
                                 (filter (\<lambda>y. y \<notin> set [k]) (firstSeen after))"
    using fresh by simp
  have "k \<notin> set A"
    using distinct_firstSeen [of xs] unfolding assms by simp
  then have "takeWhile (\<lambda>x. x \<noteq> k) (A @ k # B) = A"
    by (rule takeWhile_until)
  moreover have "k \<notin> set (firstSeen before)"
    using fresh by (simp add: set_firstSeen)
  then have "takeWhile (\<lambda>x. x \<noteq> k) (firstSeen xs) = firstSeen before"
    unfolding shape by (rule takeWhile_until)
  ultimately have "A = firstSeen before" using assms by simp
  then have "set before = set A" by (simp add: set_firstSeen)
  with xs fresh show ?thesis by blast
qed

lemma map_fst_mapSet:
  "map fst (mapSet m k v) = (if k \<in> fst ` set m then map fst m else map fst m @ [k])"
  by (induction m k v rule: mapSet.induct) auto

lemma mapGet_mapSet:
  "mapGet (mapSet m k v) k' = (if k' = k then Some v else mapGet m k')"
  by (induction m k v rule: mapSet.induct) auto

lemma mapGet_None_iff: "mapGet m k = None \<longleftrightarrow> k \<notin> fst ` set m"
  by (induction m k rule: mapGet.induct) auto

lemma mapGet_Some_iff:
  "distinct (map fst m) \<Longrightarrow> mapGet m k = Some v \<longleftrightarrow> (k, v) \<in> set m"
  by (induction m k rule: mapGet.induct) (auto simp add: rev_image_eqI)

lemma countCategories_Nil: "countCategories [] = []"
  by (simp add: countCategories_def)

lemma countCategories_snoc:
  "countCategories (ps @ [p])
     = mapSet (countCategories ps) (category p)
         ((case mapGet (countCategories ps) (category p) of None \<Rightarrow> 0 | Some c \<Rightarrow> c) + 1)"
  by (simp add: countCategories_def)

lemma countCategories_keys: "map fst (countCategories ps) = firstSeen (map category ps)"
proof (induction ps rule: rev_induct)
  case Nil
  then show ?case by (simp add: countCategories_Nil firstSeen_Nil)
next
  case (snoc p ps)
  have "fst ` set (countCategories ps) = set (map fst (countCategories ps))" by simp
  also have "\<dots> = category ` set ps" by (simp add: snoc.IH set_firstSeen)
  finally have keys: "fst ` set (countCategories ps) = category ` set ps" .
  show ?case
    by (simp add: countCategories_snoc map_fst_mapSet keys snoc.IH firstSeen_snoc)
qed

lemma countCategories_get:
  "mapGet (countCategories ps) c
     = (if c \<in> category ` set ps then Some (count_list (map category ps) c) else None)"
proof (induction ps rule: rev_induct)
  case Nil
  then show ?case by (simp add: countCategories_Nil)
next
  case (snoc p ps)
  show ?case
  proof (cases "c = category p")
    case True
    show ?thesis
    proof (cases "c \<in> category ` set ps")
      case True
      with \<open>c = category p\<close> snoc.IH show ?thesis
        by (simp add: countCategories_snoc mapGet_mapSet)
    next
      case False
      then have "count_list (map category ps) c = 0" by (simp add: count_list_0_iff)
      with False \<open>c = category p\<close> snoc.IH show ?thesis
        by (simp add: countCategories_snoc mapGet_mapSet)
    qed
  next
    case False
    with snoc.IH show ?thesis
      by (simp add: countCategories_snoc mapGet_mapSet)
  qed
qed

lemma countCategories_entry:
  "(k, v) \<in> set (countCategories ps)
     \<longleftrightarrow> k \<in> category ` set ps \<and> v = count_list (map category ps) k"
proof -
  have "distinct (map fst (countCategories ps))"
    by (simp add: countCategories_keys distinct_firstSeen)
  then have "(k, v) \<in> set (countCategories ps) \<longleftrightarrow> mapGet (countCategories ps) k = Some v"
    by (simp add: mapGet_Some_iff)
  then show ?thesis by (auto simp add: countCategories_get)
qed

lemma scan_entries:
  fixes entries :: "(string \<times> nat) list"
  assumes "foldl (\<lambda>(maxCategory, maxCount) (category, count).
                    if count > maxCount then (Some category, count)
                    else (maxCategory, maxCount))
             (mc, mx) entries = (mc', mx')"
  shows "(\<forall>e \<in> set entries. snd e \<le> mx')
         \<and> ((mc' = mc \<and> mx' = mx)
            \<or> (\<exists>pre k post. entries = pre @ (k, mx') # post \<and> mc' = Some k \<and> mx < mx'
                  \<and> (\<forall>e \<in> set pre. snd e < mx')))"
  using assms
proof (induction entries arbitrary: mc mx)
  case Nil
  then show ?case by simp
next
  case (Cons e entries)
  obtain k v where e: "e = (k, v)" by (cases e)
  show ?case
  proof (cases "v > mx")
    case True
    with Cons.prems e
    have "foldl (\<lambda>(maxCategory, maxCount) (category, count).
                    if count > maxCount then (Some category, count)
                    else (maxCategory, maxCount))
             (Some k, v) entries = (mc', mx')"
      by simp
    from Cons.IH [OF this]
    have bound: "\<forall>e \<in> set entries. snd e \<le> mx'"
      and alt: "(mc' = Some k \<and> mx' = v)
                \<or> (\<exists>pre k' post. entries = pre @ (k', mx') # post \<and> mc' = Some k' \<and> v < mx'
                      \<and> (\<forall>e \<in> set pre. snd e < mx'))"
      by blast+
    from alt show ?thesis
    proof
      assume same: "mc' = Some k \<and> mx' = v"
      with True e have "e # entries = [] @ (k, mx') # entries \<and> mc' = Some k \<and> mx < mx'
                          \<and> (\<forall>e \<in> set []. snd e < mx')"
        by simp
      then have "\<exists>pre k post. e # entries = pre @ (k, mx') # post \<and> mc' = Some k \<and> mx < mx'
                   \<and> (\<forall>e \<in> set pre. snd e < mx')"
        by blast
      with bound e same show ?thesis by simp
    next
      assume "\<exists>pre k' post. entries = pre @ (k', mx') # post \<and> mc' = Some k' \<and> v < mx'
                \<and> (\<forall>e \<in> set pre. snd e < mx')"
      then obtain pre k' post where split: "entries = pre @ (k', mx') # post"
        and winner: "mc' = Some k'" and less: "v < mx'"
        and before: "\<forall>e \<in> set pre. snd e < mx'"
        by blast
      with True e have "e # entries = (e # pre) @ (k', mx') # post \<and> mc' = Some k' \<and> mx < mx'
                          \<and> (\<forall>e \<in> set (e # pre). snd e < mx')"
        by simp
      then have "\<exists>pre k post. e # entries = pre @ (k, mx') # post \<and> mc' = Some k \<and> mx < mx'
                   \<and> (\<forall>e \<in> set pre. snd e < mx')"
        by blast
      with bound e less show ?thesis by simp
    qed
  next
    case False
    with Cons.prems e
    have "foldl (\<lambda>(maxCategory, maxCount) (category, count).
                    if count > maxCount then (Some category, count)
                    else (maxCategory, maxCount))
             (mc, mx) entries = (mc', mx')"
      by simp
    from Cons.IH [OF this]
    have bound: "\<forall>e \<in> set entries. snd e \<le> mx'"
      and alt: "(mc' = mc \<and> mx' = mx)
                \<or> (\<exists>pre k' post. entries = pre @ (k', mx') # post \<and> mc' = Some k' \<and> mx < mx'
                      \<and> (\<forall>e \<in> set pre. snd e < mx'))"
      by blast+
    from alt show ?thesis
    proof
      assume "mc' = mc \<and> mx' = mx"
      with bound False e show ?thesis by simp
    next
      assume "\<exists>pre k' post. entries = pre @ (k', mx') # post \<and> mc' = Some k' \<and> mx < mx'
                \<and> (\<forall>e \<in> set pre. snd e < mx')"
      then obtain pre k' post where split: "entries = pre @ (k', mx') # post"
        and winner: "mc' = Some k'" and less: "mx < mx'"
        and before: "\<forall>e \<in> set pre. snd e < mx'"
        by blast
      with False e have "e # entries = (e # pre) @ (k', mx') # post \<and> mc' = Some k' \<and> mx < mx'
                          \<and> (\<forall>e \<in> set (e # pre). snd e < mx')"
        by simp
      then have "\<exists>pre k post. e # entries = pre @ (k, mx') # post \<and> mc' = Some k \<and> mx < mx'
                   \<and> (\<forall>e \<in> set pre. snd e < mx')"
        by blast
      with bound e False less show ?thesis by simp
    qed
  qed
qed

lemma scanMax_countCategories:
  assumes "products \<noteq> []"
  shows "\<exists>c n. scanMax (countCategories products) = (Some c, n)
           \<and> n = count_list (map category products) c \<and> 0 < n
           \<and> (\<forall>c'. count_list (map category products) c' \<le> n)
           \<and> (\<exists>before after. map category products = before @ c # after
                  \<and> c \<notin> set before
                  \<and> (\<forall>c' \<in> set before. count_list (map category products) c' < n))"
proof -
  let ?cats = "map category products"
  let ?entries = "countCategories products"
  obtain mc' mx' where scan: "scanMax ?entries = (mc', mx')"
    by (cases "scanMax ?entries")
  then have "foldl (\<lambda>(maxCategory, maxCount) (category, count).
                      if count > maxCount then (Some category, count)
                      else (maxCategory, maxCount))
               (None, 0) ?entries = (mc', mx')"
    by (simp add: scanMax_def)
  from scan_entries [OF this]
  have bound: "\<forall>e \<in> set ?entries. snd e \<le> mx'"
    and alt: "(mc' = None \<and> mx' = 0)
              \<or> (\<exists>pre k post. ?entries = pre @ (k, mx') # post \<and> mc' = Some k \<and> 0 < mx'
                    \<and> (\<forall>e \<in> set pre. snd e < mx'))"
    by blast+
  have counted: "count_list ?cats c' \<le> mx'" for c'
  proof (cases "c' \<in> category ` set products")
    case True
    then have "(c', count_list ?cats c') \<in> set ?entries"
      by (simp add: countCategories_entry)
    with bound show ?thesis by fastforce
  next
    case False
    then have "count_list ?cats c' = 0" by (simp add: count_list_0_iff)
    then show ?thesis by simp
  qed
  from assms obtain p ps where "products = p # ps" by (cases products) auto
  then have "count_list ?cats (category p) \<noteq> 0"
    by (simp add: count_list_0_iff)
  with counted [of "category p"] have "mx' \<noteq> 0" by simp
  with alt obtain pre k post where split: "?entries = pre @ (k, mx') # post"
    and winner: "mc' = Some k" and positive: "0 < mx'"
    and earlier: "\<forall>e \<in> set pre. snd e < mx'"
    by blast
  from split have "(k, mx') \<in> set ?entries" by simp
  then have count: "mx' = count_list ?cats k"
    by (simp add: countCategories_entry)
  from split have "firstSeen ?cats = map fst pre @ k # map fst post"
    by (simp add: countCategories_keys [symmetric])
  from firstSeen_split [OF this]
  obtain before after where cats: "?cats = before @ k # after"
    and fresh: "k \<notin> set before" and same: "set before = set (map fst pre)"
    by blast
  have "count_list ?cats c' < mx'" if "c' \<in> set before" for c'
  proof -
    from that same obtain e where e: "e \<in> set pre" and "fst e = c'" by auto
    then have "(c', snd e) \<in> set ?entries" using split by auto
    then have "snd e = count_list ?cats c'" by (simp add: countCategories_entry)
    with earlier e show ?thesis by auto
  qed
  with cats fresh
  have "\<exists>before after. ?cats = before @ k # after \<and> k \<notin> set before
          \<and> (\<forall>c' \<in> set before. count_list ?cats c' < mx')"
    by blast
  with scan winner count positive counted show ?thesis by blast
qed

lemma computeMostCommonCategory_scan:
  assumes "scanMax (countCategories products) = (Some c, n)" and "products \<noteq> []"
  shows "computeMostCommonCategory products
           = (if c = [] then None else Some \<lparr> name_cc = c, count_cc = n \<rparr>)"
  using assms by (simp add: computeMostCommonCategory_def truthy_def)

lemma computeMostCommonCategory_Nil: "computeMostCommonCategory [] = None"
  by (simp add: computeMostCommonCategory_def)

text \<open>
  What \<open>computeMostCommonCategory\<close> returns on a non-empty list: with \<open>c\<close> the category of
  greatest count that is seen first, the pair of \<open>c\<close> and its count when \<open>c\<close> is a
  non-empty string, and nothing when \<open>c\<close> is the empty string.
\<close>

lemma computeMostCommonCategory_characterisation:
  assumes "products \<noteq> []"
  shows "\<exists>c n. n = count_list (map category products) c \<and> 0 < n
           \<and> (\<forall>c'. count_list (map category products) c' \<le> n)
           \<and> (\<exists>before after. map category products = before @ c # after
                  \<and> c \<notin> set before
                  \<and> (\<forall>c' \<in> set before. count_list (map category products) c' < n))
           \<and> computeMostCommonCategory products
               = (if c = [] then None else Some \<lparr> name_cc = c, count_cc = n \<rparr>)"
proof -
  from scanMax_countCategories [OF assms]
  obtain c n where scan: "scanMax (countCategories products) = (Some c, n)"
    and rest: "n = count_list (map category products) c \<and> 0 < n
           \<and> (\<forall>c'. count_list (map category products) c' \<le> n)
           \<and> (\<exists>before after. map category products = before @ c # after
                  \<and> c \<notin> set before
                  \<and> (\<forall>c' \<in> set before. count_list (map category products) c' < n))"
    by blast
  from computeMostCommonCategory_scan [OF scan assms] rest show ?thesis by blast
qed

text \<open>
  C7. On a non-empty list whose most common category is the empty string,
  \<open>computeMostCommonCategory\<close> returns nothing instead of that category and its count 2,
  while \<open>computeStockByCategory\<close> reports the empty-string category like any other. On a
  list with a tie between non-empty categories the one seen first is returned.
\<close>

theorem computeMostCommonCategory_empty_string_category_lost:
  "computeMostCommonCategory
     [sampleProduct ''x'' 1 1 1 [], sampleProduct ''y'' 1 1 1 ''laptops'',
      sampleProduct ''z'' 1 1 1 []] = None
   \<and> computeStockByCategory
       [sampleProduct ''x'' 1 1 1 [], sampleProduct ''y'' 1 1 1 ''laptops'',
        sampleProduct ''z'' 1 1 1 []]
     = [\<lparr> category_cs = [], totalStock_cs = 2 \<rparr>,
        \<lparr> category_cs = ''laptops'', totalStock_cs = 1 \<rparr>]
   \<and> computeMostCommonCategory
       [sampleProduct ''x'' 1 1 1 ''a'', sampleProduct ''y'' 1 1 1 ''b'',
        sampleProduct ''z'' 1 1 1 ''b'', sampleProduct ''w'' 1 1 1 ''a'']
     = Some \<lparr> name_cc = ''a'', count_cc = 2 \<rparr>"
  by code_simp

end
